theory Spec2Isabelle
  imports Complex_Main "HOL-Library.AList"
begin

section \<open>JavaScript strings\<close>

text \<open>
  A JavaScript string is modelled as an Isabelle \<open>string\<close>: a list of 8-bit characters, read as
  the code units U+0000 to U+00FF. \<open>toLowerCase\<close> maps A-Z and the upper-case letters of
  Latin-1 to their lower-case forms and leaves every other character alone, as
  \<open>String.prototype.toLowerCase\<close> does on these code units.
\<close>

definition asciiUpper :: string where
  "asciiUpper = ''ABCDEFGHIJKLMNOPQRSTUVWXYZ''"

definition asciiLower :: string where
  "asciiLower = ''abcdefghijklmnopqrstuvwxyz''"

definition latin1Upper :: string where
  "latin1Upper =
    [CHR 0xC0, CHR 0xC1, CHR 0xC2, CHR 0xC3, CHR 0xC4, CHR 0xC5, CHR 0xC6, CHR 0xC7,
     CHR 0xC8, CHR 0xC9, CHR 0xCA, CHR 0xCB, CHR 0xCC, CHR 0xCD, CHR 0xCE, CHR 0xCF,
     CHR 0xD0, CHR 0xD1, CHR 0xD2, CHR 0xD3, CHR 0xD4, CHR 0xD5, CHR 0xD6,
     CHR 0xD8, CHR 0xD9, CHR 0xDA, CHR 0xDB, CHR 0xDC, CHR 0xDD, CHR 0xDE]"

definition latin1Lower :: string where
  "latin1Lower =
    [CHR 0xE0, CHR 0xE1, CHR 0xE2, CHR 0xE3, CHR 0xE4, CHR 0xE5, CHR 0xE6, CHR 0xE7,
     CHR 0xE8, CHR 0xE9, CHR 0xEA, CHR 0xEB, CHR 0xEC, CHR 0xED, CHR 0xEE, CHR 0xEF,
     CHR 0xF0, CHR 0xF1, CHR 0xF2, CHR 0xF3, CHR 0xF4, CHR 0xF5, CHR 0xF6,
     CHR 0xF8, CHR 0xF9, CHR 0xFA, CHR 0xFB, CHR 0xFC, CHR 0xFD, CHR 0xFE]"

definition toLowerChar :: "char \<Rightarrow> char" where
  "toLowerChar c =
     (case map_of (zip (asciiUpper @ latin1Upper) (asciiLower @ latin1Lower)) c of
        Some l \<Rightarrow> l
      | None \<Rightarrow> c)"

definition toLowerCase :: "string \<Rightarrow> string" where
  "toLowerCase s = map toLowerChar s"

text \<open>The regular-expression classes \<open>\w\<close> and \<open>\s\<close> on these code units.\<close>

definition isWordChar :: "char \<Rightarrow> bool" where
  "isWordChar c = (c \<in> set (asciiUpper @ asciiLower @ ''0123456789_''))"

definition isSpaceChar :: "char \<Rightarrow> bool" where
  "isSpaceChar c =
     (c \<in> set [CHR 0x09, CHR 0x0A, CHR 0x0B, CHR 0x0C, CHR 0x0D, CHR 0x20, CHR 0xA0])"

text \<open>\<open>String.prototype.trim\<close> removes the same characters from both ends.\<close>

definition trim :: "string \<Rightarrow> string" where
  "trim s = rev (dropWhile isSpaceChar (rev (dropWhile isSpaceChar s)))"

text \<open>\<open>s.startsWith(p)\<close> and \<open>s.includes(sub)\<close>.\<close>

definition startsWith :: "string \<Rightarrow> string \<Rightarrow> bool" where
  "startsWith s p = (take (length p) s = p)"

fun includesStr :: "string \<Rightarrow> string \<Rightarrow> bool" where
  "includesStr [] sub = (sub = [])"
| "includesStr (x # xs) sub = (startsWith (x # xs) sub \<or> includesStr xs sub)"

subsection \<open>The regular expressions of the blocklist\<close>

text \<open>
  Every pattern of \<open>DESTRUCTIVE_PATTERNS\<close> has the shape \<open>/\b ... \b/i\<close> where the body is a
  sequence of literal letters and of \<open>\s+\<close>. A pattern is the list of its body tokens; the two
  \<open>\b\<close> anchors and the flag \<open>i\<close> are part of the matcher.
\<close>

datatype rtok = RChar char | RSpaces

text \<open>
  \<open>\b\<close> holds between two positions exactly one of which is a word character; the start and
  the end of the input count as non-word.
\<close>

definition wordBoundary :: "char option \<Rightarrow> string \<Rightarrow> bool" where
  "wordBoundary prev rest =
     ((case prev of None \<Rightarrow> False | Some p \<Rightarrow> isWordChar p) \<noteq>
      (case rest of [] \<Rightarrow> False | x # _ \<Rightarrow> isWordChar x))"

text \<open>
  \<open>matchHere ts prev s\<close>: the tokens \<open>ts\<close> followed by the closing \<open>\b\<close> match a prefix of
  \<open>s\<close>, the character before \<open>s\<close> being \<open>prev\<close>. \<open>\s+\<close> takes one space and then either
  goes on taking spaces or hands over to the rest of the pattern (backtracking).
\<close>

fun matchHere :: "rtok list \<Rightarrow> char option \<Rightarrow> string \<Rightarrow> bool" where
  "matchHere [] prev s = wordBoundary prev s"
| "matchHere (RChar c # ts) prev [] = False"
| "matchHere (RChar c # ts) prev (x # xs) =
     (toLowerChar x = toLowerChar c \<and> matchHere ts (Some x) xs)"
| "matchHere (RSpaces # ts) prev [] = False"
| "matchHere (RSpaces # ts) prev (x # xs) =
     (isSpaceChar x \<and> (matchHere (RSpaces # ts) (Some x) xs \<or> matchHere ts (Some x) xs))"

text \<open>\<open>searchFrom\<close> tries every start position, left to right, as \<open>RegExp.prototype.test\<close> does.\<close>

fun searchFrom :: "rtok list \<Rightarrow> char option \<Rightarrow> string \<Rightarrow> bool" where
  "searchFrom ts prev [] = (wordBoundary prev [] \<and> matchHere ts prev [])"
| "searchFrom ts prev (x # xs) =
     ((wordBoundary prev (x # xs) \<and> matchHere ts prev (x # xs)) \<or> searchFrom ts (Some x) xs)"

definition regexTest :: "rtok list \<Rightarrow> string \<Rightarrow> bool" where
  "regexTest ts s = searchFrom ts None s"

definition word :: "string \<Rightarrow> rtok list" where
  "word w = map RChar w"

definition DESTRUCTIVE_PATTERNS :: "rtok list list" where
  "DESTRUCTIVE_PATTERNS =
    [word ''delete'',
     word ''remove'',
     word ''cancel'' @ [RSpaces] @ word ''subscription'',
     word ''unsubscribe'',
     word ''close'' @ [RSpaces] @ word ''account'',
     word ''deactivate'',
     word ''terminate'',
     word ''destroy'',
     word ''erase'',
     word ''permanently'']"

text \<open>The keyword list \<open>DESTRUCTIVE_KEYWORDS\<close> of types.ts (exported, read by no code).\<close>

definition DESTRUCTIVE_KEYWORDS :: "string list" where
  "DESTRUCTIVE_KEYWORDS =
    [''delete'', ''remove'', ''cancel subscription'', ''unsubscribe'', ''close account'',
     ''deactivate'', ''terminate'', ''destroy'', ''erase'', ''permanently'']"

section \<open>JavaScript numbers and JSON values\<close>

text \<open>
  A number is NaN, an infinity or a finite value. The code of the normalizer only compares
  numbers (\<open>Math.min\<close>, \<open>Math.max\<close>, truthiness), so a finite value is a real and no rounding
  is involved; both zeros are \<open>Fin 0\<close>.
\<close>

datatype jsnum = NaN | PosInf | NegInf | Fin real

fun mathMax :: "jsnum \<Rightarrow> jsnum \<Rightarrow> jsnum" where
  "mathMax NaN _ = NaN"
| "mathMax _ NaN = NaN"
| "mathMax PosInf _ = PosInf"
| "mathMax _ PosInf = PosInf"
| "mathMax NegInf y = y"
| "mathMax x NegInf = x"
| "mathMax (Fin a) (Fin b) = Fin (max a b)"

fun mathMin :: "jsnum \<Rightarrow> jsnum \<Rightarrow> jsnum" where
  "mathMin NaN _ = NaN"
| "mathMin _ NaN = NaN"
| "mathMin NegInf _ = NegInf"
| "mathMin _ NegInf = NegInf"
| "mathMin PosInf y = y"
| "mathMin x PosInf = x"
| "mathMin (Fin a) (Fin b) = Fin (min a b)"

fun truthyNum :: "jsnum \<Rightarrow> bool" where
  "truthyNum NaN = False"
| "truthyNum (Fin r) = (r \<noteq> 0)"
| "truthyNum _ = True"

text \<open>
  The result of \<open>JSON.parse\<close>. An object is an association list read with \<open>map_of\<close>;
  \<open>JSON.parse\<close> delivers every key once. \<open>undefined\<close> is not a JSON value: a property read
  is a \<open>json option\<close>, \<open>None\<close> for \<open>undefined\<close>.
\<close>

datatype json =
    JNull
  | JBool bool
  | JNum jsnum
  | JStr string
  | JArr "json list"
  | JObj "(string \<times> json) list"

fun truthy :: "json \<Rightarrow> bool" where
  "truthy JNull = False"
| "truthy (JBool b) = b"
| "truthy (JNum n) = truthyNum n"
| "truthy (JStr s) = (s \<noteq> [])"
| "truthy (JArr _) = True"
| "truthy (JObj _) = True"

fun truthyOpt :: "json option \<Rightarrow> bool" where
  "truthyOpt None = False"
| "truthyOpt (Some v) = truthy v"

text \<open>
  \<open>readProp v k\<close> is the property read \<open>v[k]\<close> for the keys the normalizer reads. Only an object
  has them, with one exception handled where it arises: an array inherits the method \<open>fill\<close>.
\<close>

fun readProp :: "json \<Rightarrow> string \<Rightarrow> json option" where
  "readProp (JObj kvs) k = map_of kvs k"
| "readProp _ k = None"

text \<open>\<open>a ?? b\<close>: the right operand when the left one is \<open>null\<close> or \<open>undefined\<close>.\<close>

fun nullish :: "json option \<Rightarrow> json option \<Rightarrow> json option" where
  "nullish None b = b"
| "nullish (Some JNull) b = b"
| "nullish (Some v) b = Some v"

fun isObject :: "json \<Rightarrow> bool" where
  "isObject (JArr _) = True"
| "isObject (JObj _) = True"
| "isObject _ = False"

fun showNat :: "nat \<Rightarrow> string" where
  "showNat n =
     (if n < 10 then [''0123456789'' ! n]
      else showNat (n div 10) @ [''0123456789'' ! (n mod 10)])"

text \<open>The own enumerable properties that an object spread \<open>{...v}\<close> copies.\<close>

fun ownEntries :: "json \<Rightarrow> (string \<times> json) list" where
  "ownEntries (JObj kvs) = kvs"
| "ownEntries (JArr xs) = zip (map showNat [0..<length xs]) xs"
| "ownEntries _ = []"

text \<open>\<open>{ type: t, ...v }\<close>: a later property with the same key overwrites the value.\<close>

definition spreadWithType :: "json \<Rightarrow> json \<Rightarrow> (string \<times> json) list" where
  "spreadWithType t v =
     foldl (\<lambda>acc kv. AList.update (fst kv) (snd kv) acc) [(''type'', t)] (ownEntries v)"

text \<open>
  The conversions \<open>Number(v)\<close> and \<open>String(v)\<close> belong to the language. What they give on a
  number, a boolean, \<open>null\<close> and \<open>undefined\<close> (for \<open>Number\<close>) and on a string, a boolean and
  \<open>null\<close> (for \<open>String\<close>) is written out; the rest (parsing a numeric string, printing a
  number, converting an array or an object) is a parameter.
\<close>

record coercions =
  numberOf :: "json \<Rightarrow> jsnum"
  stringOf :: "json \<Rightarrow> string"

fun toNumber :: "coercions \<Rightarrow> json option \<Rightarrow> jsnum" where
  "toNumber C None = NaN"
| "toNumber C (Some JNull) = Fin 0"
| "toNumber C (Some (JBool b)) = Fin (if b then 1 else 0)"
| "toNumber C (Some (JNum n)) = n"
| "toNumber C (Some v) = numberOf C v"

fun toString :: "coercions \<Rightarrow> json \<Rightarrow> string" where
  "toString C (JStr s) = s"
| "toString C JNull = ''null''"
| "toString C (JBool b) = (if b then ''true'' else ''false'')"
| "toString C v = stringOf C v"

section \<open>The agent's actions\<close>

datatype direction = Up | Down

datatype agentAction =
    Click string
  | Fill string string
  | Select string string
  | Scroll direction
  | Back
  | Wait jsnum
  | Search string
  | OpenHelp
  | Done string "jsnum list"

definition actionType :: "agentAction \<Rightarrow> string" where
  "actionType a =
     (case a of
        Click _ \<Rightarrow> ''click''
      | Fill _ _ \<Rightarrow> ''fill''
      | Select _ _ \<Rightarrow> ''select''
      | Scroll _ \<Rightarrow> ''scroll''
      | Back \<Rightarrow> ''back''
      | Wait _ \<Rightarrow> ''wait''
      | Search _ \<Rightarrow> ''search''
      | OpenHelp \<Rightarrow> ''openHelp''
      | Done _ _ \<Rightarrow> ''done'')"

section \<open>parseActionResponse\<close>

text \<open>One constructor for every \<open>throw\<close> of \<open>parseActionResponse\<close>, in source order.\<close>

datatype parseError =
    EmptyResponse
  | NoJsonFound
  | InvalidJson
  | NoAction
  | InvalidActionFormat
  | ClickMissingTarget
  | FillMissingTargetValue
  | SelectMissingTargetOption
  | SearchMissingQuery
  | UnknownActionType json

text \<open>
  \<open>text.replace(/```json\s*/g, '')\<close> and \<open>.replace(/```\s*/g, '')\<close>: \<open>replaceFence p s\<close> removes
  every occurrence of the literal \<open>p\<close> together with the white space after it, scanning from
  the left and resuming after each removed match.
\<close>

function replaceFence :: "string \<Rightarrow> string \<Rightarrow> string" where
  "replaceFence p s =
     (if s = [] \<or> p = [] then s
      else if startsWith s p then replaceFence p (dropWhile isSpaceChar (drop (length p) s))
      else hd s # replaceFence p (tl s))"
  by pat_completeness auto
termination
proof (relation "measure (\<lambda>(p, s). length s)")
  show "wf (measure (\<lambda>(p, s). length s))"
    by simp
next
  fix p s :: string
  assume "\<not> (s = [] \<or> p = [])" and "startsWith s p"
  then have "length (drop (length p) s) < length s"
    by simp
  moreover have "length (dropWhile isSpaceChar (drop (length p) s)) \<le> length (drop (length p) s)"
    by (rule length_dropWhile_le)
  ultimately show "((p, dropWhile isSpaceChar (drop (length p) s)), (p, s))
      \<in> measure (\<lambda>(p, s). length s)"
    by simp
next
  fix p s :: string
  assume "\<not> (s = [] \<or> p = [])"
  then show "((p, tl s), (p, s)) \<in> measure (\<lambda>(p, s). length s)"
    by (cases s) simp_all
qed

declare replaceFence.simps [simp del]

text \<open>
  \<open>cleanText.match(/\{[\s\S]*\}/)\<close>: from the first opening brace to the last closing brace
  after it; \<open>None\<close> when there is no such pair.
\<close>

definition matchBraces :: "string \<Rightarrow> string option" where
  "matchBraces s =
     (let fromOpen = dropWhile (\<lambda>c. c \<noteq> CHR ''{'') s;
          upToClose = rev (dropWhile (\<lambda>c. c \<noteq> CHR ''}'') (rev fromOpen))
      in if upToClose = [] then None else Some upToClose)"

text \<open>\<open>getProperty(obj, ...keys)\<close>: the first of the keys whose value is not \<open>undefined\<close>.\<close>

fun getProperty :: "json \<Rightarrow> string list \<Rightarrow> json option" where
  "getProperty obj [] = None"
| "getProperty obj (k # ks) = (case readProp obj k of Some v \<Rightarrow> Some v | None \<Rightarrow> getProperty obj ks)"

definition actionTypes :: "string list" where
  "actionTypes =
     [''click'', ''fill'', ''select'', ''scroll'', ''back'', ''wait'', ''search'', ''openHelp'',
      ''done'']"

text \<open>
  After \<open>{ type: ..., ...x }\<close> the keys \<open>action\<close> and \<open>command\<close> are deleted, and \<open>thinking\<close>
  when the guard of the \<open>if\<close> holds.
\<close>

definition dropWrapperKeys :: "bool \<Rightarrow> (string \<times> json) list \<Rightarrow> (string \<times> json) list" where
  "dropWrapperKeys dropThinking kvs =
     (let kvs1 = AList.delete ''command'' (AList.delete ''action'' kvs)
      in if dropThinking then AList.delete ''thinking'' kvs1 else kvs1)"

text \<open>Flat format: the payload under \<open>action\<close> or \<open>command\<close> is the type string itself.\<close>

definition flattenStringAction :: "json \<Rightarrow> json option \<Rightarrow> json option" where
  "flattenStringAction parsed action =
     (case action of
        Some (JStr s) \<Rightarrow>
          Some (JObj (dropWrapperKeys (truthyOpt (readProp parsed ''thinking''))
                        (spreadWithType (JStr s) parsed)))
      | _ \<Rightarrow> action)"

text \<open>Double nesting: the payload has an \<open>action\<close> or \<open>command\<close> key of its own.\<close>

definition unwrapNested :: "json option \<Rightarrow> json option" where
  "unwrapNested action =
     (case action of
        None \<Rightarrow> None
      | Some a \<Rightarrow>
          if truthy a \<and> isObject a \<and>
             (truthyOpt (readProp a ''action'') \<or> truthyOpt (readProp a ''command''))
          then (case nullish (readProp a ''action'') (readProp a ''command'') of
                  Some (JStr innerType) \<Rightarrow>
                    (let kvs = dropWrapperKeys False (spreadWithType (JStr innerType) a)
                     in Some (JObj (dropWrapperKeys (truthyOpt (map_of kvs ''thinking'')) kvs)))
                | _ \<Rightarrow> Some a)
          else Some a)"

text \<open>\<open>name\<close> as an alias of \<open>type\<close>.\<close>

definition aliasName :: "json \<Rightarrow> json" where
  "aliasName a =
     (if \<not> truthyOpt (readProp a ''type'') \<and> truthyOpt (readProp a ''name'')
      then (case a of
              JObj kvs \<Rightarrow> JObj (AList.update ''type'' (the (readProp a ''name'')) kvs)
            | _ \<Rightarrow> a)
      else a)"

text \<open>
  The scan over the nine type names, taken when \<open>type\<close> is still missing. The first name that
  is a property of the payload decides; an array has the inherited method \<open>fill\<close>, which is
  neither a string nor an object.
\<close>

definition fromShorthand :: "string \<Rightarrow> json \<Rightarrow> json" where
  "fromShorthand ty nested =
     (case nested of
        JStr s \<Rightarrow>
          (if ty = ''click'' then JObj [(''type'', JStr ty), (''target'', JStr s)]
           else if ty = ''search'' then JObj [(''type'', JStr ty), (''query'', JStr s)]
           else if ty = ''scroll'' then JObj [(''type'', JStr ty), (''direction'', JStr s)]
           else JObj [(''type'', JStr ty), (''target'', JStr s)])
      | JObj _ \<Rightarrow> JObj (spreadWithType (JStr ty) nested)
      | JArr _ \<Rightarrow> JObj (spreadWithType (JStr ty) nested)
      | _ \<Rightarrow> JObj [(''type'', JStr ty)])"

fun scanTypes :: "json \<Rightarrow> string list \<Rightarrow> json" where
  "scanTypes a [] = a"
| "scanTypes a (ty # rest) =
     (case a of
        JArr _ \<Rightarrow> (if ty = ''fill'' then JObj [(''type'', JStr ty)] else scanTypes a rest)
      | _ \<Rightarrow>
        (case readProp a ty of
           Some nested \<Rightarrow> fromShorthand ty nested
         | None \<Rightarrow> scanTypes a rest))"

text \<open>The \<open>switch\<close> on \<open>action.type\<close>.\<close>

definition buildAction :: "coercions \<Rightarrow> json \<Rightarrow> parseError + agentAction" where
  "buildAction C a =
     (case readProp a ''type'' of
        Some (JStr ty) \<Rightarrow>
          if ty = ''click'' then
            (let target = getProperty a [''target'', ''element'', ''ref'', ''selector'', ''text'']
             in if \<not> truthyOpt target then Inl ClickMissingTarget
                else Inr (Click (toString C (the target))))
          else if ty = ''fill'' then
            (let target = getProperty a [''target'', ''element'', ''ref'', ''selector'', ''field''];
                 val = getProperty a [''value'', ''text'', ''input'']
             in if \<not> truthyOpt target \<or> val = None then Inl FillMissingTargetValue
                else Inr (Fill (toString C (the target)) (toString C (the val))))
          else if ty = ''select'' then
            (let target = getProperty a [''target'', ''element'', ''ref'', ''selector''];
                 opt = getProperty a [''option'', ''value'', ''choice'']
             in if \<not> truthyOpt target \<or> \<not> truthyOpt opt then Inl SelectMissingTargetOption
                else Inr (Select (toString C (the target)) (toString C (the opt))))
          else if ty = ''scroll'' then
            Inr (Scroll (if readProp a ''direction'' = Some (JStr ''up'') then Up else Down))
          else if ty = ''back'' then Inr Back
          else if ty = ''wait'' then
            (let n = toNumber C (readProp a ''ms'')
             in Inr (Wait (mathMin (Fin 5000)
                            (mathMax (Fin 100) (if truthyNum n then n else Fin 1000)))))
          else if ty = ''search'' then
            (let query = getProperty a [''query'', ''term'', ''text'', ''input'', ''value'']
             in if \<not> truthyOpt query then Inl SearchMissingQuery
                else Inr (Search (toString C (the query))))
          else if ty = ''openHelp'' then Inr OpenHelp
          else if ty = ''done'' then
            (let r = getProperty a [''reason'', ''message'', ''explanation''];
                 reason = (if truthyOpt r then the r else JStr ''Task completed'')
             in Inr (Done (toString C reason)
                      (case readProp a ''evidenceSteps'' of
                         Some (JArr xs) \<Rightarrow> map (\<lambda>x. toNumber C (Some x)) xs
                       | _ \<Rightarrow> [])))
          else Inl (UnknownActionType (JStr ty))
      | Some v \<Rightarrow> Inl (UnknownActionType v)
      | None \<Rightarrow> Inl InvalidActionFormat)"

text \<open>
  The part of \<open>parseActionResponse\<close> after \<open>JSON.parse\<close>: from the parsed value to the
  canonical action.
\<close>

definition normalizeParsed :: "coercions \<Rightarrow> json \<Rightarrow> parseError + agentAction" where
  "normalizeParsed C parsed =
     (let action0 = nullish (readProp parsed ''action'') (readProp parsed ''command'');
          action1 = flattenStringAction parsed action0;
          action2 = unwrapNested action1
      in if \<not> truthyOpt action2 then Inl NoAction
         else
           (let action3 = aliasName (the action2);
                action4 = (if \<not> truthyOpt (readProp action3 ''type'')
                           then scanTypes action3 actionTypes else action3)
            in if \<not> truthyOpt (readProp action4 ''type'') then Inl InvalidActionFormat
               else buildAction C action4))"

text \<open>
  \<open>JSON.parse\<close> belongs to the language and is a parameter: \<open>None\<close> when it throws. The logging
  calls have no effect on the result and are left out.
\<close>

type_synonym jsonParser = "string \<Rightarrow> json option"

definition parseActionResponse ::
    "jsonParser \<Rightarrow> coercions \<Rightarrow> string \<Rightarrow> parseError + agentAction" where
  "parseActionResponse J C text =
     (if text = [] \<or> trim text = [] then Inl EmptyResponse
      else
        (let cleanText = trim (replaceFence ''```'' (replaceFence ''```json'' text))
         in case matchBraces cleanText of
              None \<Rightarrow> Inl NoJsonFound
            | Some m \<Rightarrow>
                (case J m of
                   None \<Rightarrow> Inl InvalidJson
                 | Some parsed \<Rightarrow> normalizeParsed C parsed)))"


text \<open>
  An instance of the conversions for the examples, none of which converts a string, an array or
  an object to a number, or a number, an array or an object to a string. On a plain object it
  is what the language gives.
\<close>

definition exampleCoercions :: coercions where
  "exampleCoercions = \<lparr>numberOf = (\<lambda>v. NaN), stringOf = (\<lambda>v. ''[object Object]'')\<rparr>"

section \<open>URLs, snapshots and step logs\<close>

text \<open>
  \<open>new URL(s)\<close> belongs to the platform and is a parameter: \<open>None\<close> when it throws, otherwise
  the two components the code reads.
\<close>

record parsedUrl =
  pathname :: string
  search :: string

type_synonym urlParser = "string \<Rightarrow> parsedUrl option"

text \<open>
  A thrown value, as far as the code looks at it: the text of
  \<open>error instanceof Error ? error.message : String(error)\<close> and that of \<open>String(error)\<close>.
\<close>

record thrown =
  thr_message :: string
  thr_string :: string

definition invalidUrl :: thrown where
  "invalidUrl = \<lparr>thr_message = ''Invalid URL'', thr_string = ''TypeError: Invalid URL''\<rparr>"

record interactiveElement =
  el_ref :: string
  el_role :: string
  el_name :: string

record pageSnapshot =
  snap_url :: string
  snap_title :: string
  snap_headings :: "string list"
  snap_navLinks :: "string list"
  snap_interactiveElements :: "interactiveElement list"
  snap_text :: string
  snap_hasSearchBox :: bool
  snap_hasHelpLink :: bool

datatype progressLevel = ProgNone | ProgSome | ProgMajor

record stepResult =
  res_ok :: bool
  res_notes :: string
  res_newUrl :: "string option"
  res_progress :: progressLevel
  res_error :: "string option"

record stepErrors =
  err_console :: "string list"
  err_network :: "string list"
  err_exception :: "string option"

text \<open>
  \<open>step_timestamp\<close> is the instant of the ISO string, in milliseconds; \<open>step_screenshot\<close> is
  \<open>evidence.screenshot\<close>.
\<close>

record stepLog =
  step_i :: nat
  step_timestamp :: int
  step_url :: string
  step_pageTitle :: string
  step_snapshot :: pageSnapshot
  step_action :: agentAction
  step_result :: stepResult
  step_screenshot :: string
  step_errors :: stepErrors

record helpLadderState =
  phase :: nat
  stepsWithoutProgress :: int
  searchTermsUsed :: "string list"
  helpOpened :: bool

record successHints =
  mustSeeText :: "string list option"
  mustEndOnUrlIncludes :: "string list option"

record previousState =
  prev_url :: string
  prev_title :: string
  prev_pageKey :: string

text \<open>\<open>getPageKey\<close>: the path, \<open>::\<close>, and the first heading or the empty string.\<close>

definition getPageKey :: "urlParser \<Rightarrow> pageSnapshot \<Rightarrow> string option" where
  "getPageKey P snapshot =
     (case P (snap_url snapshot) of
        None \<Rightarrow> None
      | Some u \<Rightarrow>
          Some (pathname u @ ''::'' @
                (case snap_headings snapshot of [] \<Rightarrow> [] | h # _ \<Rightarrow> h)))"

section \<open>The helpers of the decision loop\<close>

definition assessProgress ::
    "urlParser \<Rightarrow> string \<Rightarrow> string \<Rightarrow> previousState option \<Rightarrow> thrown + progressLevel" where
  "assessProgress P beforeUrl afterUrl unused_previousState =
     (case P beforeUrl of
        None \<Rightarrow> Inl invalidUrl
      | Some b \<Rightarrow>
          (case P afterUrl of
             None \<Rightarrow> Inl invalidUrl
           | Some a \<Rightarrow>
               if pathname b \<noteq> pathname a then Inr ProgMajor
               else if search b \<noteq> search a then Inr ProgSome
               else Inr ProgNone))"

definition updateHelpLadder :: "helpLadderState \<Rightarrow> pageSnapshot \<Rightarrow> helpLadderState" where
  "updateHelpLadder ladderState snapshot =
     (if stepsWithoutProgress ladderState \<ge> 10 \<and> \<not> helpOpened ladderState \<and>
         snap_hasHelpLink snapshot
      then ladderState\<lparr>phase := 2\<rparr>
      else if stepsWithoutProgress ladderState \<ge> 6 \<and> snap_hasSearchBox snapshot
      then ladderState\<lparr>phase := 1\<rparr>
      else ladderState)"

definition isDestructiveAction :: "agentAction \<Rightarrow> string \<Rightarrow> bool" where
  "isDestructiveAction action goal =
     (case action of
        Click target \<Rightarrow>
          list_ex (\<lambda>pattern. regexTest pattern (toLowerCase target) \<and>
                              \<not> regexTest pattern (toLowerCase goal))
            DESTRUCTIVE_PATTERNS
      | _ \<Rightarrow> False)"

definition checkSuccessHints :: "pageSnapshot \<Rightarrow> successHints \<Rightarrow> bool" where
  "checkSuccessHints snapshot hints =
     (let textOk =
            (case mustSeeText hints of
               None \<Rightarrow> True
             | Some ts \<Rightarrow>
                 ts = [] \<or>
                 list_all (\<lambda>t. includesStr (toLowerCase (snap_text snapshot)) (toLowerCase t)) ts);
          urlOk =
            (case mustEndOnUrlIncludes hints of
               None \<Rightarrow> True
             | Some ps \<Rightarrow>
                 ps = [] \<or>
                 list_ex (\<lambda>p. includesStr (toLowerCase (snap_url snapshot)) (toLowerCase p)) ps)
      in textOk \<and> urlOk)"

text \<open>
  \<open>executeAction\<close>. What the browser does is the environment's: either a driver call throws,
  or the page settles and \<open>page.url()\<close> reads \<open>beforeUrl\<close> before the action and \<open>afterUrl\<close>
  after it. \<open>done\<close> returns before any driver call.
\<close>

datatype execOutcome = DriverThrew thrown | Settled string string

definition executeAction ::
    "urlParser \<Rightarrow> execOutcome \<Rightarrow> agentAction \<Rightarrow> previousState option \<Rightarrow> thrown + stepResult" where
  "executeAction P outcome action previousState =
     (case action of
        Done _ _ \<Rightarrow>
          Inr \<lparr>res_ok = True, res_notes = ''Task declared complete'', res_newUrl = None,
               res_progress = ProgMajor, res_error = None\<rparr>
      | _ \<Rightarrow>
          (case outcome of
             DriverThrew e \<Rightarrow> Inl e
           | Settled beforeUrl afterUrl \<Rightarrow>
               (case assessProgress P beforeUrl afterUrl previousState of
                  Inl e \<Rightarrow> Inl e
                | Inr progress \<Rightarrow>
                    Inr \<lparr>res_ok = True,
                         res_notes = ''Executed '' @ actionType action,
                         res_newUrl = (if afterUrl \<noteq> beforeUrl then Some afterUrl else None),
                         res_progress = progress,
                         res_error = None\<rparr>)))"

section \<open>runAgentLoop\<close>

datatype runStatus = Success | Fail | Partial

datatype decisionFailure = LlmFailed thrown | ParseFailed parseError

text \<open>
  The reason strings, one constructor for each template of the source:
  \<^item> \<open>Unknown\<close>: \<open>Unknown\<close>;
  \<^item> \<open>TimeBudgetExhausted m\<close>: \<open>Time budget exhausted (m minutes)\<close>;
  \<^item> \<open>DecisionError e\<close>: \<open>Decision error: \<close> and the message of \<open>e\<close>;
  \<^item> \<open>DoneReason r\<close>: the reason \<open>r\<close> of the \<open>done\<close> action;
  \<^item> \<open>HintsNotSatisfied\<close>: \<open>Agent declared done but success hints not fully satisfied\<close>;
  \<^item> \<open>BlockedDestructive a\<close>: \<open>Blocked destructive action: \<close> and \<open>JSON.stringify(a)\<close>;
  \<^item> \<open>DiscoverabilityBlock\<close>: \<open>Discoverability block: no progress for 14 steps\<close>;
  \<^item> \<open>HintsSatisfied\<close>: \<open>Success hints satisfied\<close>;
  \<^item> \<open>StepBudgetExhausted n\<close>: \<open>Step budget exhausted (n steps)\<close>.
\<close>

datatype reason =
    Unknown
  | TimeBudgetExhausted real
  | DecisionError decisionFailure
  | DoneReason string
  | HintsNotSatisfied
  | BlockedDestructive agentAction
  | DiscoverabilityBlock
  | HintsSatisfied
  | StepBudgetExhausted nat

text \<open>An entry \<open>step:n\<close> of \<open>completionEvidence\<close>.\<close>

datatype evidenceRef = StepRef jsnum

record agentLoopConfig =
  cfg_goal :: string
  cfg_maxSteps :: nat
  cfg_maxMinutes :: real
  cfg_successHints :: "successHints option"

record agentLoopResult =
  r_steps :: "stepLog list"
  r_finalStatus :: runStatus
  r_reason :: reason
  r_completionEvidence :: "evidenceRef list"

text \<open>The variables of \<open>runAgentLoop\<close> that live across iterations.\<close>

record loopState =
  ls_steps :: "stepLog list"
  ls_ladderState :: helpLadderState
  ls_visitedPages :: "string \<Rightarrow> nat option"
  ls_previousState :: "previousState option"
  ls_finalStatus :: runStatus
  ls_reason :: reason
  ls_completionEvidence :: "evidenceRef list"

text \<open>
  What one iteration gets from outside: the clock, the observation of the page, the answer of
  the completion service (the text, or the failure of the call), the outcome of the driver,
  the evidence collector's screenshot path and error buffers, the time stamp of the step log,
  and the observation taken after the pacing delay.
\<close>

record stepEnv =
  env_now :: int
  env_snapshot :: pageSnapshot
  env_llm :: "thrown + string"
  env_exec :: execOutcome
  env_screenshot :: string
  env_timestamp :: int
  env_errors :: stepErrors
  env_newSnapshot :: pageSnapshot

record world =
  w_parseUrl :: urlParser
  w_parseJson :: jsonParser
  w_coerce :: coercions
  w_startTime :: int
  w_env :: "nat \<Rightarrow> stepEnv"

definition initialState :: loopState where
  "initialState =
     \<lparr>ls_steps = [],
      ls_ladderState = \<lparr>phase = 0, stepsWithoutProgress = 0, searchTermsUsed = [],
                         helpOpened = False\<rparr>,
      ls_visitedPages = (\<lambda>k. None),
      ls_previousState = None,
      ls_finalStatus = Fail,
      ls_reason = Unknown,
      ls_completionEvidence = []\<rparr>"

text \<open>
  \<open>decideNextAction\<close>: the prompt is text sent to the completion service and changes nothing
  in the loop; the answer is parsed by \<open>parseActionResponse\<close>.
\<close>

definition decideNextAction :: "world \<Rightarrow> stepEnv \<Rightarrow> decisionFailure + agentAction" where
  "decideNextAction W e =
     (case env_llm e of
        Inl err \<Rightarrow> Inl (LlmFailed err)
      | Inr text \<Rightarrow>
          (case parseActionResponse (w_parseJson W) (w_coerce W) text of
             Inl err \<Rightarrow> Inl (ParseFailed err)
           | Inr action \<Rightarrow> Inr action))"

datatype iterResult = Continue loopState | Break loopState | Escaped thrown

definition mkStepLog ::
    "stepEnv \<Rightarrow> nat \<Rightarrow> agentAction \<Rightarrow> stepResult \<Rightarrow> stepLog" where
  "mkStepLog e stepIndex action result =
     \<lparr>step_i = stepIndex,
      step_timestamp = env_timestamp e,
      step_url = snap_url (env_snapshot e),
      step_pageTitle = snap_title (env_snapshot e),
      step_snapshot = env_snapshot e,
      step_action = action,
      step_result = result,
      step_screenshot = env_screenshot e,
      step_errors = env_errors e\<rparr>"

text \<open>The branch \<open>if (action.type === 'done')\<close>.\<close>

definition doneStep ::
    "agentLoopConfig \<Rightarrow> stepEnv \<Rightarrow> nat \<Rightarrow> string \<Rightarrow> jsnum list \<Rightarrow> loopState \<Rightarrow> loopState" where
  "doneStep config e stepIndex doneReason evidenceSteps st =
     (let hintsValid =
            (case cfg_successHints config of
               None \<Rightarrow> True
             | Some hints \<Rightarrow> checkSuccessHints (env_snapshot e) hints);
          stepLog = mkStepLog e stepIndex (Done doneReason evidenceSteps)
            \<lparr>res_ok = True, res_notes = ''Agent declared task complete'', res_newUrl = None,
             res_progress = ProgMajor, res_error = None\<rparr>
      in st\<lparr>ls_finalStatus := (if hintsValid then Success else Partial),
             ls_reason := (if hintsValid then DoneReason doneReason else HintsNotSatisfied),
             ls_completionEvidence := map StepRef evidenceSteps,
             ls_steps := ls_steps st @ [stepLog]\<rparr>)"

text \<open>
  The \<open>try\<close> around \<open>executeAction\<close>: an exception becomes a failed result with progress
  \<open>none\<close>.
\<close>

definition tryExecuteAction ::
    "world \<Rightarrow> stepEnv \<Rightarrow> agentAction \<Rightarrow> previousState option \<Rightarrow> stepResult" where
  "tryExecuteAction W e action previousState =
     (case executeAction (w_parseUrl W) (env_exec e) action previousState of
        Inr result \<Rightarrow> result
      | Inl err \<Rightarrow>
          \<lparr>res_ok = False, res_notes = ''Action failed: '' @ thr_message err,
           res_newUrl = None, res_progress = ProgNone,
           res_error = Some (thr_string err)\<rparr>)"

text \<open>The statement under \<open>// Update ladder state based on progress\<close>.\<close>

definition updateProgressCounter :: "progressLevel \<Rightarrow> helpLadderState \<Rightarrow> helpLadderState" where
  "updateProgressCounter progress ladderState =
     (if progress = ProgMajor then ladderState\<lparr>stepsWithoutProgress := 0\<rparr>
      else if progress = ProgNone
      then ladderState\<lparr>stepsWithoutProgress := stepsWithoutProgress ladderState + 1\<rparr>
      else ladderState\<lparr>stepsWithoutProgress :=
                         max 0 (stepsWithoutProgress ladderState - 1)\<rparr>)"

text \<open>
  From \<open>// Execute action\<close> to the end of the loop body: the action is executed, the step is
  logged, the counter is updated, the ceiling and the success hints are checked.
\<close>

definition executeStep ::
    "world \<Rightarrow> agentLoopConfig \<Rightarrow> stepEnv \<Rightarrow> nat \<Rightarrow> string \<Rightarrow> agentAction \<Rightarrow> loopState \<Rightarrow>
     iterResult" where
  "executeStep W config e stepIndex pageKey action st =
     (let result = tryExecuteAction W e action (ls_previousState st);
          stepLog = mkStepLog e stepIndex action result;
          st1 = st\<lparr>ls_steps := ls_steps st @ [stepLog],
                   ls_ladderState :=
                     updateProgressCounter (res_progress result) (ls_ladderState st)\<rparr>
      in if stepsWithoutProgress (ls_ladderState st1) \<ge> 14
         then Break (st1\<lparr>ls_reason := DiscoverabilityBlock, ls_finalStatus := Fail\<rparr>)
         else
           (let st2 = st1\<lparr>ls_previousState :=
                            Some \<lparr>prev_url = snap_url (env_snapshot e),
                                  prev_title = snap_title (env_snapshot e),
                                  prev_pageKey = pageKey\<rparr>\<rparr>
            in case cfg_successHints config of
                 None \<Rightarrow> Continue st2
               | Some hints \<Rightarrow>
                   if checkSuccessHints (env_newSnapshot e) hints
                   then Break (st2\<lparr>ls_finalStatus := Success, ls_reason := HintsSatisfied,
                                    ls_completionEvidence := [StepRef (Fin (real stepIndex))]\<rparr>)
                   else Continue st2))"

text \<open>
  From \<open>// Track visited pages\<close> to \<open>updateHelpLadder\<close>: the visit is counted and the ladder
  is escalated. The decision context and the recent history only feed the prompt.
\<close>

definition observePage :: "pageSnapshot \<Rightarrow> string \<Rightarrow> loopState \<Rightarrow> loopState" where
  "observePage snapshot pageKey st =
     (let visitCount = (case ls_visitedPages st pageKey of None \<Rightarrow> 0 | Some c \<Rightarrow> c) + 1
      in st\<lparr>ls_visitedPages := (ls_visitedPages st)(pageKey \<mapsto> visitCount),
             ls_ladderState := updateHelpLadder (ls_ladderState st) snapshot\<rparr>)"

text \<open>\<open>elapsed >= timeoutMs\<close> at the top of an iteration.\<close>

definition timeExhausted :: "world \<Rightarrow> agentLoopConfig \<Rightarrow> stepEnv \<Rightarrow> bool" where
  "timeExhausted W config e =
     (real_of_int (env_now e - w_startTime W) \<ge> cfg_maxMinutes config * 60 * 1000)"

text \<open>
  The body of the \<open>for\<close> loop. \<open>Break\<close> is a \<open>break\<close>, \<open>Continue\<close> the end of the body,
  \<open>Escaped\<close> an exception that no \<open>catch\<close> of the loop handles (\<open>getPageKey\<close> on a URL that
  does not parse).
\<close>

definition iteration ::
    "world \<Rightarrow> agentLoopConfig \<Rightarrow> nat \<Rightarrow> loopState \<Rightarrow> iterResult" where
  "iteration W config stepIndex st =
     (let e = w_env W stepIndex
      in if timeExhausted W config e
         then Break (st\<lparr>ls_reason := TimeBudgetExhausted (cfg_maxMinutes config),
                         ls_finalStatus := (if length (ls_steps st) > 0 then Partial else Fail)\<rparr>)
         else
           (case getPageKey (w_parseUrl W) (env_snapshot e) of
              None \<Rightarrow> Escaped invalidUrl
            | Some pageKey \<Rightarrow>
                (let st1 = observePage (env_snapshot e) pageKey st
                 in case decideNextAction W e of
                      Inl err \<Rightarrow> Break (st1\<lparr>ls_reason := DecisionError err\<rparr>)
                    | Inr action \<Rightarrow>
                        (case action of
                           Done doneReason evidenceSteps \<Rightarrow>
                             Break (doneStep config e stepIndex doneReason evidenceSteps st1)
                         | _ \<Rightarrow>
                             if isDestructiveAction action (cfg_goal config)
                             then Break (st1\<lparr>ls_reason := BlockedDestructive action,
                                              ls_finalStatus := Fail\<rparr>)
                             else executeStep W config e stepIndex pageKey action st1))))"

text \<open>The \<open>for\<close> loop from \<open>stepIndex\<close> on; the result is the state when the loop is left.\<close>

function loopFrom ::
    "world \<Rightarrow> agentLoopConfig \<Rightarrow> nat \<Rightarrow> loopState \<Rightarrow> thrown + loopState" where
  "loopFrom W config stepIndex st =
     (if stepIndex < cfg_maxSteps config
      then (case iteration W config stepIndex st of
              Continue st' \<Rightarrow> loopFrom W config (Suc stepIndex) st'
            | Break st' \<Rightarrow> Inr st'
            | Escaped err \<Rightarrow> Inl err)
      else Inr st)"
  by pat_completeness auto
termination
  by (relation "measure (\<lambda>(W, config, stepIndex, st). cfg_maxSteps config - stepIndex)") auto

declare loopFrom.simps [simp del]

text \<open>The statements after the loop.\<close>

definition finish :: "agentLoopConfig \<Rightarrow> loopState \<Rightarrow> agentLoopResult" where
  "finish config st =
     (if length (ls_steps st) \<ge> cfg_maxSteps config \<and> ls_finalStatus st = Fail
      then \<lparr>r_steps = ls_steps st, r_finalStatus = Partial,
            r_reason = StepBudgetExhausted (cfg_maxSteps config),
            r_completionEvidence = ls_completionEvidence st\<rparr>
      else \<lparr>r_steps = ls_steps st, r_finalStatus = ls_finalStatus st,
            r_reason = ls_reason st,
            r_completionEvidence = ls_completionEvidence st\<rparr>)"

definition runAgentLoop :: "world \<Rightarrow> agentLoopConfig \<Rightarrow> thrown + agentLoopResult" where
  "runAgentLoop W config =
     (case loopFrom W config 0 initialState of
        Inl err \<Rightarrow> Inl err
      | Inr st \<Rightarrow> Inr (finish config st))"

text \<open>
  \<open>stateAt W config k\<close>: the state in which the loop reaches the test of its \<open>k\<close>-th
  iteration, \<open>None\<close> when it has left before.
\<close>

fun stateAt :: "world \<Rightarrow> agentLoopConfig \<Rightarrow> nat \<Rightarrow> loopState option" where
  "stateAt W config 0 = Some initialState"
| "stateAt W config (Suc k) =
     (case stateAt W config k of
        None \<Rightarrow> None
      | Some st \<Rightarrow>
          if k < cfg_maxSteps config
          then (case iteration W config k st of Continue st' \<Rightarrow> Some st' | _ \<Rightarrow> None)
          else None)"

section \<open>The run evaluator\<close>

datatype findingType = Discoverability | Copy | Validation | Bug | Performance

datatype severity = Low | Med | High

text \<open>
  The titles and details of the findings, one constructor for each template of the source,
  with the values the template interpolates:
  \<^item> \<open>NavigationDifficulty t\<close>: \<open>Navigation difficulty at t\<close>, with details
    \<open>SpentSteps n url actions\<close>;
  \<^item> \<open>RequiredSearch\<close>: \<open>Required search to find feature\<close>, with \<open>UsedSearch n terms\<close>;
  \<^item> \<open>ExcessiveBacktracking\<close>: \<open>Excessive navigation backtracking\<close>, with \<open>Backtracked n\<close>;
  \<^item> \<open>ConsoleErrorsDetected n\<close>: \<open>Console errors detected (n total)\<close>, with
    \<open>ErrorsInclude firstThree more\<close>;
  \<^item> \<open>FailedNetworkRequests n\<close>: \<open>Failed network requests (n total)\<close>, with
    \<open>FailedRequests firstThree more\<close>;
  \<^item> \<open>FormValidationTriggered\<close>: \<open>Form validation triggered\<close>, with \<open>ValidationAt n\<close>;
  \<^item> \<open>NeededHelp\<close>: \<open>Agent needed to access help\<close>, with \<open>HelpEscalation\<close>.
\<close>

datatype findingTitle =
    NavigationDifficulty string
  | RequiredSearch
  | ExcessiveBacktracking
  | ConsoleErrorsDetected nat
  | FailedNetworkRequests nat
  | FormValidationTriggered
  | NeededHelp

datatype findingDetails =
    SpentSteps nat string "string list"
  | UsedSearch nat "string list"
  | Backtracked nat
  | ErrorsInclude "string list" bool
  | FailedRequests "string list" bool
  | ValidationAt nat
  | HelpEscalation

record finding =
  f_type :: findingType
  f_severity :: severity
  f_title :: findingTitle
  f_details :: findingDetails
  f_step :: nat
  f_screenshot :: string

record runMetrics =
  m_steps :: nat
  m_pageTransitions :: nat
  m_backtracks :: nat
  m_searchUsed :: bool
  m_stuckEvents :: nat
  m_consoleErrors :: nat
  m_failedRequests :: nat
  m_durationMs :: int

text \<open>
  The functions of the evaluator return \<open>None\<close> when \<open>new URL\<close> throws on the URL of a step.
\<close>

text \<open>The loop of \<open>detectStuckEvents\<close>, with its three variables.\<close>

fun stuckLoop :: "urlParser \<Rightarrow> stepLog list \<Rightarrow> nat \<Rightarrow> nat \<Rightarrow> string \<Rightarrow> nat option" where
  "stuckLoop P [] stuckCount consecutiveCount lastPageKey = Some stuckCount"
| "stuckLoop P (step # rest) stuckCount consecutiveCount lastPageKey =
     (case getPageKey P (step_snapshot step) of
        None \<Rightarrow> None
      | Some pageKey \<Rightarrow>
          if pageKey = lastPageKey
          then (if consecutiveCount + 1 \<ge> 3
                then stuckLoop P rest (stuckCount + 1) 0 lastPageKey
                else stuckLoop P rest stuckCount (consecutiveCount + 1) lastPageKey)
          else stuckLoop P rest stuckCount 1 pageKey)"

definition detectStuckEvents :: "urlParser \<Rightarrow> stepLog list \<Rightarrow> nat option" where
  "detectStuckEvents P steps =
     (if length steps < 3 then Some 0 else stuckLoop P steps 0 1 [])"

text \<open>The loop of \<open>findStuckWindows\<close> and the test after it.\<close>

fun windowsLoop ::
    "urlParser \<Rightarrow> stepLog list \<Rightarrow> stepLog list list \<Rightarrow> stepLog list \<Rightarrow> string \<Rightarrow>
     stepLog list list option" where
  "windowsLoop P [] windows currentWindow lastPageKey =
     Some (if length currentWindow \<ge> 3 then windows @ [currentWindow] else windows)"
| "windowsLoop P (step # rest) windows currentWindow lastPageKey =
     (case getPageKey P (step_snapshot step) of
        None \<Rightarrow> None
      | Some pageKey \<Rightarrow>
          if pageKey = lastPageKey
          then windowsLoop P rest windows (currentWindow @ [step]) lastPageKey
          else windowsLoop P rest
                 (if length currentWindow \<ge> 3 then windows @ [currentWindow] else windows)
                 [step] pageKey)"

definition findStuckWindows :: "urlParser \<Rightarrow> stepLog list \<Rightarrow> stepLog list list option" where
  "findStuckWindows P steps = windowsLoop P steps [] [] []"

text \<open>The loop of \<open>findBacktrackSteps\<close>; \<open>seenPages\<close> is the set as a list.\<close>

fun backtrackLoop ::
    "urlParser \<Rightarrow> stepLog list \<Rightarrow> stepLog list \<Rightarrow> string list \<Rightarrow> stepLog list option" where
  "backtrackLoop P [] backtrackSteps seenPages = Some backtrackSteps"
| "backtrackLoop P (step # rest) backtrackSteps seenPages =
     (case getPageKey P (step_snapshot step) of
        None \<Rightarrow> None
      | Some pageKey \<Rightarrow>
          if pageKey \<in> set seenPages
          then backtrackLoop P rest (backtrackSteps @ [step]) seenPages
          else backtrackLoop P rest backtrackSteps (seenPages @ [pageKey]))"

definition findBacktrackSteps :: "urlParser \<Rightarrow> stepLog list \<Rightarrow> stepLog list option" where
  "findBacktrackSteps P steps = backtrackLoop P steps [] []"

definition formatActionShort :: "stepLog \<Rightarrow> string" where
  "formatActionShort step =
     (case step_action step of
        Click _ \<Rightarrow> ''click''
      | Fill _ _ \<Rightarrow> ''fill''
      | Select _ _ \<Rightarrow> ''select''
      | Scroll _ \<Rightarrow> ''scroll''
      | Back \<Rightarrow> ''back''
      | Wait _ \<Rightarrow> ''wait''
      | Search query \<Rightarrow> ''search(\"'' @ query @ ''\")''
      | OpenHelp \<Rightarrow> ''help''
      | Done _ _ \<Rightarrow> ''done'')"

text \<open>
  The loop of \<open>calculateMetrics\<close>. The accumulator holds \<open>pageTransitions\<close>, \<open>backtracks\<close>,
  \<open>searchUsed\<close>, \<open>consoleErrors\<close>, \<open>failedRequests\<close> and \<open>pageVisits\<close>.
\<close>

record metricsAcc =
  acc_pageTransitions :: nat
  acc_backtracks :: nat
  acc_searchUsed :: bool
  acc_consoleErrors :: nat
  acc_failedRequests :: nat
  acc_pageVisits :: "string list"

definition isSearch :: "agentAction \<Rightarrow> bool" where
  "isSearch a = (case a of Search _ \<Rightarrow> True | _ \<Rightarrow> False)"

definition isOpenHelp :: "agentAction \<Rightarrow> bool" where
  "isOpenHelp a = (case a of OpenHelp \<Rightarrow> True | _ \<Rightarrow> False)"

fun metricsLoop ::
    "urlParser \<Rightarrow> stepLog option \<Rightarrow> stepLog list \<Rightarrow> metricsAcc \<Rightarrow> metricsAcc option" where
  "metricsLoop P prevStep [] acc = Some acc"
| "metricsLoop P prevStep (step # rest) acc =
     (let moved =
            (case prevStep of
               None \<Rightarrow> Some False
             | Some prev \<Rightarrow>
                 if step_url step \<noteq> step_url prev
                 then (case (P (step_url prev), P (step_url step)) of
                         (Some prevU, Some currU) \<Rightarrow> Some (pathname prevU \<noteq> pathname currU)
                       | _ \<Rightarrow> None)
                 else Some False)
      in case moved of
           None \<Rightarrow> None
         | Some m \<Rightarrow>
             (case getPageKey P (step_snapshot step) of
                None \<Rightarrow> None
              | Some pageKey \<Rightarrow>
                  metricsLoop P (Some step) rest
                    \<lparr>acc_pageTransitions = acc_pageTransitions acc + (if m then 1 else 0),
                     acc_backtracks =
                       acc_backtracks acc + (if pageKey \<in> set (acc_pageVisits acc) then 1 else 0),
                     acc_searchUsed = (acc_searchUsed acc \<or> isSearch (step_action step)),
                     acc_consoleErrors =
                       acc_consoleErrors acc + length (err_console (step_errors step)),
                     acc_failedRequests =
                       acc_failedRequests acc + length (err_network (step_errors step)),
                     acc_pageVisits = acc_pageVisits acc @ [pageKey]\<rparr>))"

text \<open>
  \<open>calculateMetrics\<close>; \<open>startNow\<close> and \<open>endNow\<close> are the two readings of \<open>Date.now()\<close> taken
  when the trace is empty.
\<close>

definition calculateMetrics ::
    "urlParser \<Rightarrow> int \<Rightarrow> int \<Rightarrow> stepLog list \<Rightarrow> runMetrics option" where
  "calculateMetrics P startNow endNow steps =
     (case metricsLoop P None steps
             \<lparr>acc_pageTransitions = 0, acc_backtracks = 0, acc_searchUsed = False,
              acc_consoleErrors = 0, acc_failedRequests = 0, acc_pageVisits = []\<rparr> of
        None \<Rightarrow> None
      | Some acc \<Rightarrow>
          (case detectStuckEvents P steps of
             None \<Rightarrow> None
           | Some stuckEvents \<Rightarrow>
               Some \<lparr>m_steps = length steps,
                     m_pageTransitions = acc_pageTransitions acc,
                     m_backtracks = acc_backtracks acc,
                     m_searchUsed = acc_searchUsed acc,
                     m_stuckEvents = stuckEvents,
                     m_consoleErrors = acc_consoleErrors acc,
                     m_failedRequests = acc_failedRequests acc,
                     m_durationMs =
                       (case steps of [] \<Rightarrow> endNow | _ \<Rightarrow> step_timestamp (last steps)) -
                       (case steps of [] \<Rightarrow> startNow | first # _ \<Rightarrow> step_timestamp first)\<rparr>))"

text \<open>The seven parts of \<open>identifyFindings\<close>, in source order.\<close>

definition windowFinding :: "stepLog list \<Rightarrow> finding list" where
  "windowFinding window =
     (if length window \<ge> 3
      then [\<lparr>f_type = Discoverability,
             f_severity = (if length window \<ge> 6 then High else Med),
             f_title = NavigationDifficulty (step_pageTitle (hd window)),
             f_details = SpentSteps (length window) (step_url (hd window))
                           (map formatActionShort window),
             f_step = step_i (hd window),
             f_screenshot = step_screenshot (hd window)\<rparr>]
      else [])"

definition stuckWindowFindings :: "urlParser \<Rightarrow> stepLog list \<Rightarrow> finding list option" where
  "stuckWindowFindings P steps =
     (case findStuckWindows P steps of
        None \<Rightarrow> None
      | Some stuckWindows \<Rightarrow> Some (concat (map windowFinding stuckWindows)))"

definition searchFindings :: "stepLog list \<Rightarrow> finding list" where
  "searchFindings steps =
     (let searchSteps = filter (\<lambda>s. isSearch (step_action s)) steps
      in if length searchSteps \<ge> 2
         then [\<lparr>f_type = Discoverability, f_severity = Med, f_title = RequiredSearch,
                f_details = UsedSearch (length searchSteps)
                  (map (\<lambda>s. case step_action s of Search query \<Rightarrow> query | _ \<Rightarrow> [])
                     searchSteps),
                f_step = step_i (hd searchSteps),
                f_screenshot = step_screenshot (hd searchSteps)\<rparr>]
         else [])"

definition backtrackFindings ::
    "urlParser \<Rightarrow> stepLog list \<Rightarrow> runMetrics \<Rightarrow> finding list option" where
  "backtrackFindings P steps metrics =
     (if m_backtracks metrics \<ge> 3
      then (case findBacktrackSteps P steps of
              None \<Rightarrow> None
            | Some backtrackSteps \<Rightarrow>
                Some (if length backtrackSteps > 0
                      then [\<lparr>f_type = Discoverability,
                             f_severity = (if m_backtracks metrics \<ge> 5 then High else Med),
                             f_title = ExcessiveBacktracking,
                             f_details = Backtracked (m_backtracks metrics),
                             f_step = step_i (hd backtrackSteps),
                             f_screenshot = step_screenshot (hd backtrackSteps)\<rparr>]
                      else []))
      else Some [])"

definition consoleFindings :: "stepLog list \<Rightarrow> runMetrics \<Rightarrow> finding list" where
  "consoleFindings steps metrics =
     (let stepsWithErrors = filter (\<lambda>s. length (err_console (step_errors s)) > 0) steps;
          allErrors = concat (map (\<lambda>s. err_console (step_errors s)) stepsWithErrors)
      in if length stepsWithErrors > 0
         then [\<lparr>f_type = Bug,
                f_severity = (if m_consoleErrors metrics \<ge> 5 then High else Med),
                f_title = ConsoleErrorsDetected (m_consoleErrors metrics),
                f_details = ErrorsInclude (take 3 allErrors) (length allErrors > 3),
                f_step = step_i (hd stepsWithErrors),
                f_screenshot = step_screenshot (hd stepsWithErrors)\<rparr>]
         else [])"

definition networkFindings :: "stepLog list \<Rightarrow> runMetrics \<Rightarrow> finding list" where
  "networkFindings steps metrics =
     (let stepsWithNetworkErrors =
            filter (\<lambda>s. length (err_network (step_errors s)) > 0) steps;
          allNetworkErrors =
            concat (map (\<lambda>s. err_network (step_errors s)) stepsWithNetworkErrors)
      in if length stepsWithNetworkErrors > 0
         then [\<lparr>f_type = Bug,
                f_severity = (if m_failedRequests metrics \<ge> 3 then High else Low),
                f_title = FailedNetworkRequests (m_failedRequests metrics),
                f_details = FailedRequests (take 3 allNetworkErrors)
                              (length allNetworkErrors > 3),
                f_step = step_i (hd stepsWithNetworkErrors),
                f_screenshot = step_screenshot (hd stepsWithNetworkErrors)\<rparr>]
         else [])"

text \<open>
  The predicate of the filter of part 6, with the grouping that the operators have in
  JavaScript: \<open>a && b || c\<close> is \<open>(a && b) || c\<close>.
\<close>

definition isValidationStep :: "stepLog \<Rightarrow> bool" where
  "isValidationStep s =
     ((res_progress (step_result s) = ProgSome \<and>
       includesStr (toLowerCase (res_notes (step_result s))) ''validation'') \<or>
      includesStr (toLowerCase (res_notes (step_result s))) ''error'')"

definition validationFindings :: "stepLog list \<Rightarrow> finding list" where
  "validationFindings steps =
     (let validationSteps = filter isValidationStep steps
      in if length validationSteps > 0
         then [\<lparr>f_type = Validation, f_severity = Low, f_title = FormValidationTriggered,
                f_details = ValidationAt (length validationSteps),
                f_step = step_i (hd validationSteps),
                f_screenshot = step_screenshot (hd validationSteps)\<rparr>]
         else [])"

definition helpFindings :: "stepLog list \<Rightarrow> finding list" where
  "helpFindings steps =
     (case find (\<lambda>s. isOpenHelp (step_action s)) steps of
        None \<Rightarrow> []
      | Some helpStep \<Rightarrow>
          [\<lparr>f_type = Discoverability, f_severity = Med, f_title = NeededHelp,
            f_details = HelpEscalation,
            f_step = step_i helpStep,
            f_screenshot = step_screenshot helpStep\<rparr>])"

definition severityOrder :: "severity \<Rightarrow> nat" where
  "severityOrder sv = (case sv of High \<Rightarrow> 0 | Med \<Rightarrow> 1 | Low \<Rightarrow> 2)"

text \<open>\<open>Array.prototype.sort\<close> is stable, as \<open>sort_key\<close> is; \<open>slice(0, 7)\<close> is \<open>take 7\<close>.\<close>

definition identifyFindings ::
    "urlParser \<Rightarrow> stepLog list \<Rightarrow> runMetrics \<Rightarrow> finding list option" where
  "identifyFindings P steps metrics =
     (case stuckWindowFindings P steps of
        None \<Rightarrow> None
      | Some part1 \<Rightarrow>
          (case backtrackFindings P steps metrics of
             None \<Rightarrow> None
           | Some part3 \<Rightarrow>
               Some (take 7 (sort_key (\<lambda>f. severityOrder (f_severity f))
                       (part1 @ searchFindings steps @ part3 @ consoleFindings steps metrics @
                        networkFindings steps metrics @ validationFindings steps @
                        helpFindings steps)))))"

text \<open>
  The metrics and the findings of \<open>evaluateRun\<close>: \<open>identifyFindings\<close> on the metrics that
  \<open>calculateMetrics\<close> gives.
\<close>

definition evaluateFindings ::
    "urlParser \<Rightarrow> int \<Rightarrow> int \<Rightarrow> stepLog list \<Rightarrow> finding list option" where
  "evaluateFindings P startNow endNow steps =
     (case calculateMetrics P startNow endNow steps of
        None \<Rightarrow> None
      | Some metrics \<Rightarrow> identifyFindings P steps metrics)"

section \<open>The specification in its own words\<close>

text \<open>
  The blocklist as the specification words it: a keyword matches a text when the text, in
  lower case, contains the keyword.
\<close>

definition specKeywordMatch :: "string \<Rightarrow> string \<Rightarrow> bool" where
  "specKeywordMatch keyword s = includesStr (toLowerCase s) keyword"

definition specIsDestructive :: "string \<Rightarrow> string \<Rightarrow> bool" where
  "specIsDestructive target goal =
     list_ex (\<lambda>keyword. specKeywordMatch keyword target \<and> \<not> specKeywordMatch keyword goal)
       DESTRUCTIVE_KEYWORDS"

text \<open>
  The clamp of \<open>wait\<close> as the specification words it: a number below 100 becomes 100, one
  above 5000 becomes 5000, one in the range is kept, and what is not a number becomes 1000.
\<close>

fun specWaitMs :: "jsnum \<Rightarrow> jsnum" where
  "specWaitMs NaN = Fin 1000"
| "specWaitMs PosInf = Fin 5000"
| "specWaitMs NegInf = Fin 100"
| "specWaitMs (Fin r) = Fin (if r < 100 then 100 else if r > 5000 then 5000 else r)"

text \<open>
  The validation finding as the specification words it: a step counts when its progress is
  \<open>some\<close> and its notes mention validation or error text.
\<close>

definition specIsValidationStep :: "stepLog \<Rightarrow> bool" where
  "specIsValidationStep s =
     (res_progress (step_result s) = ProgSome \<and>
      (includesStr (toLowerCase (res_notes (step_result s))) ''validation'' \<or>
       includesStr (toLowerCase (res_notes (step_result s))) ''error''))"

text \<open>The page key of a recorded step, as the evaluator computes it.\<close>

definition stepKey :: "urlParser \<Rightarrow> stepLog \<Rightarrow> string option" where
  "stepKey P s = getPageKey P (step_snapshot s)"

text \<open>
  The maximal runs of a list: each run is an element followed by all the neighbours after it
  that have the same key.
\<close>

function groupRuns :: "('a \<Rightarrow> 'k) \<Rightarrow> 'a list \<Rightarrow> 'a list list" where
  "groupRuns f [] = []"
| "groupRuns f (x # xs) =
     (x # takeWhile (\<lambda>y. f y = f x) xs) # groupRuns f (dropWhile (\<lambda>y. f y = f x) xs)"
  by pat_completeness auto
termination
  by (relation "measure (\<lambda>(f, xs). length xs)") (auto simp: length_dropWhile_le less_Suc_eq_le)

text \<open>
  The documented shapes of a response that asks for the click on \<open>t\<close>: the flat shape under
  \<open>action\<close>, the shorthand, the two shapes whose \<open>command\<close> or \<open>action\<close> is the type string,
  the nested shape and the two doubly nested shapes. Each is the text of the response paired
  with the value that \<open>JSON.parse\<close> gives for it when \<open>t\<close> has no character that JSON
  escapes.
\<close>

definition clickShapes :: "string \<Rightarrow> (string \<times> json) list" where
  "clickShapes t =
     [(''{\"action\":{\"type\":\"click\",\"target\":\"'' @ t @ ''\"}}'',
         JObj [(''action'', JObj [(''type'', JStr ''click''), (''target'', JStr t)])]),
      (''{\"action\":{\"click\":\"'' @ t @ ''\"}}'',
         JObj [(''action'', JObj [(''click'', JStr t)])]),
      (''{\"command\":\"click\",\"target\":\"'' @ t @ ''\"}'',
         JObj [(''command'', JStr ''click''), (''target'', JStr t)]),
      (''{\"action\":\"click\",\"target\":\"'' @ t @ ''\"}'',
         JObj [(''action'', JStr ''click''), (''target'', JStr t)]),
      (''{\"action\":{\"click\":{\"target\":\"'' @ t @ ''\"}}}'',
         JObj [(''action'', JObj [(''click'', JObj [(''target'', JStr t)])])]),
      (''{\"action\":{\"action\":\"click\",\"target\":\"'' @ t @ ''\"}}'',
         JObj [(''action'', JObj [(''action'', JStr ''click''), (''target'', JStr t)])]),
      (''{\"action\":{\"command\":\"click\",\"target\":\"'' @ t @ ''\"}}'',
         JObj [(''action'', JObj [(''command'', JStr ''click''), (''target'', JStr t)])])]"

section \<open>Example runs\<close>

text \<open>
  A small shop: \<open>new URL\<close> and \<open>JSON.parse\<close> on the strings of the examples, and the
  observations of two pages.
\<close>

definition exampleUrls :: urlParser where
  "exampleUrls = map_of
     [(''https://shop.test/home'', \<lparr>pathname = ''/home'', search = []\<rparr>),
      (''https://shop.test/home?tab=2'', \<lparr>pathname = ''/home'', search = ''?tab=2''\<rparr>),
      (''https://shop.test/account'', \<lparr>pathname = ''/account'', search = []\<rparr>)]"

definition exampleJson :: jsonParser where
  "exampleJson = map_of
    ([(''{\"action\":{\"click\":\"Browse\"}}'',
         JObj [(''action'', JObj [(''click'', JStr ''Browse'')])]),
      (''{\"action\":{\"click\":\"Delete my account\"}}'',
         JObj [(''action'', JObj [(''click'', JStr ''Delete my account'')])]),
      (''{\"action\":{\"click\":\"Deleted items\"}}'',
         JObj [(''action'', JObj [(''click'', JStr ''Deleted items'')])]),
      (''{\"action\":{\"type\":\"openHelp\"}}'',
         JObj [(''action'', JObj [(''type'', JStr ''openHelp'')])]),
      (''{\"action\":{\"type\":\"wait\",\"ms\":50}}'',
         JObj [(''action'', JObj [(''type'', JStr ''wait''), (''ms'', JNum (Fin 50))])]),
      (''{\"action\":{\"type\":\"wait\",\"ms\":0}}'',
         JObj [(''action'', JObj [(''type'', JStr ''wait''), (''ms'', JNum (Fin 0))])]),
      (''{\"action\":{\"click\":\"xy\"}}'',
         JObj [(''action'', JObj [(''click'', JStr ''xy'')])])]
     @ clickShapes ''btn_1'' @ clickShapes [])"

definition homeSnapshot :: pageSnapshot where
  "homeSnapshot =
     \<lparr>snap_url = ''https://shop.test/home'', snap_title = ''Home'',
      snap_headings = [''Welcome''], snap_navLinks = [], snap_interactiveElements = [],
      snap_text = ''Page: Home'', snap_hasSearchBox = True, snap_hasHelpLink = False\<rparr>"

definition helpSnapshot :: pageSnapshot where
  "helpSnapshot = homeSnapshot\<lparr>snap_hasSearchBox := False, snap_hasHelpLink := True\<rparr>"

text \<open>
  \<open>exampleWorld text outcome\<close>: the completion service always answers \<open>text\<close>, the driver
  always ends with \<open>outcome\<close>, one second passes between two iterations, and the page is the
  home page, which shows a help link (and no search box) at iteration 10 only.
\<close>

definition exampleEnv :: "string \<Rightarrow> execOutcome \<Rightarrow> nat \<Rightarrow> stepEnv" where
  "exampleEnv text outcome i =
     \<lparr>env_now = 1000 * int i,
      env_snapshot = (if i = 10 then helpSnapshot else homeSnapshot),
      env_llm = Inr text,
      env_exec = outcome,
      env_screenshot = ''screens/step.png'',
      env_timestamp = 1000 * int i,
      env_errors = \<lparr>err_console = [], err_network = [], err_exception = None\<rparr>,
      env_newSnapshot = homeSnapshot\<rparr>"

definition exampleWorld :: "string \<Rightarrow> execOutcome \<Rightarrow> world" where
  "exampleWorld text outcome =
     \<lparr>w_parseUrl = exampleUrls, w_parseJson = exampleJson, w_coerce = exampleCoercions,
      w_startTime = 0, w_env = exampleEnv text outcome\<rparr>"

definition exampleConfig :: "string \<Rightarrow> nat \<Rightarrow> agentLoopConfig" where
  "exampleConfig goal n =
     \<lparr>cfg_goal = goal, cfg_maxSteps = n, cfg_maxMinutes = 6, cfg_successHints = None\<rparr>"

text \<open>The run in which every click leaves the page where it is.\<close>

definition stallWorld :: world where
  "stallWorld =
     exampleWorld ''{\"action\":{\"click\":\"Browse\"}}''
       (Settled ''https://shop.test/home'' ''https://shop.test/home'')"

text \<open>The trace of the first \<open>n\<close> steps of that run.\<close>

definition stallTrace :: "nat \<Rightarrow> stepLog list" where
  "stallTrace n =
     (case runAgentLoop stallWorld (exampleConfig ''browse the product'' n) of
        Inr r \<Rightarrow> r_steps r
      | Inl _ \<Rightarrow> [])"

text \<open>The run in which the agent asks for the help page and the driver opens another page.\<close>

definition helpWorld :: world where
  "helpWorld =
     exampleWorld ''{\"action\":{\"type\":\"openHelp\"}}''
       (Settled ''https://shop.test/home'' ''https://shop.test/account'')"

text \<open>The runs in which the agent wants to click \<open>Delete my account\<close> and \<open>Deleted items\<close>.\<close>

definition deleteWorld :: world where
  "deleteWorld =
     exampleWorld ''{\"action\":{\"click\":\"Delete my account\"}}''
       (Settled ''https://shop.test/home'' ''https://shop.test/account'')"

definition deletedItemsWorld :: world where
  "deletedItemsWorld =
     exampleWorld ''{\"action\":{\"click\":\"Deleted items\"}}''
       (Settled ''https://shop.test/home'' ''https://shop.test/home'')"

text \<open>The run in which every click fails in the driver.\<close>

definition failingWorld :: world where
  "failingWorld =
     exampleWorld ''{\"action\":{\"click\":\"Browse\"}}''
       (DriverThrew \<lparr>thr_message = ''locator.click: Error: Element is not attached to the DOM'',
                     thr_string =
                       ''Error: locator.click: Error: Element is not attached to the DOM''\<rparr>)"

definition failingTrace :: "nat \<Rightarrow> stepLog list" where
  "failingTrace n =
     (case runAgentLoop failingWorld (exampleConfig ''browse the product'' n) of
        Inr r \<Rightarrow> r_steps r
      | Inl _ \<Rightarrow> [])"

text \<open>The step that the stalling run records at iteration \<open>i\<close>, written out.\<close>

definition stallStep :: "nat \<Rightarrow> stepLog" where
  "stallStep i =
     \<lparr>step_i = i,
      step_timestamp = 1000 * int i,
      step_url = ''https://shop.test/home'',
      step_pageTitle = ''Home'',
      step_snapshot = (if i = 10 then helpSnapshot else homeSnapshot),
      step_action = Click ''Browse'',
      step_result = \<lparr>res_ok = True, res_notes = ''Executed click'', res_newUrl = None,
                      res_progress = ProgNone, res_error = None\<rparr>,
      step_screenshot = ''screens/step.png'',
      step_errors = \<lparr>err_console = [], err_network = [], err_exception = None\<rparr>\<rparr>"

text \<open>A step recorded on another page: the account page, where the agent declares the goal met.\<close>

definition accountSnapshot :: pageSnapshot where
  "accountSnapshot =
     \<lparr>snap_url = ''https://shop.test/account'', snap_title = ''Account'',
      snap_headings = [''Your account''], snap_navLinks = [], snap_interactiveElements = [],
      snap_text = ''Page: Account'', snap_hasSearchBox = True, snap_hasHelpLink = False\<rparr>"

definition accountStep :: "nat \<Rightarrow> stepLog" where
  "accountStep i =
     \<lparr>step_i = i,
      step_timestamp = 1000 * int i,
      step_url = snap_url accountSnapshot,
      step_pageTitle = snap_title accountSnapshot,
      step_snapshot = accountSnapshot,
      step_action = Done ''Task completed'' [],
      step_result = \<lparr>res_ok = True, res_notes = ''Agent declared task complete'',
                      res_newUrl = None, res_progress = ProgMajor, res_error = None\<rparr>,
      step_screenshot = ''screens/step.png'',
      step_errors = \<lparr>err_console = [], err_network = [], err_exception = None\<rparr>\<rparr>"

section \<open>Properties\<close>

subsection \<open>The normalizer\<close>

lemmas norm_defs =
  normalizeParsed_def flattenStringAction_def unwrapNested_def aliasName_def buildAction_def
  fromShorthand_def actionTypes_def dropWrapperKeys_def spreadWithType_def

lemma clamp_range:
  "truthyNum m \<Longrightarrow>
     \<exists>r. mathMin (Fin 5000) (mathMax (Fin 100) m) = Fin r \<and> 100 \<le> r \<and> r \<le> 5000"
  by (cases m) auto

lemma waitMs_range:
  "\<exists>r. mathMin (Fin 5000) (mathMax (Fin 100) (if truthyNum m then m else Fin 1000)) = Fin r \<and>
       100 \<le> r \<and> r \<le> 5000"
proof (cases "truthyNum m")
  case True
  then show ?thesis using clamp_range [of m] by simp
next
  case False
  then show ?thesis by simp
qed

lemma buildAction_wait_range:
  assumes "buildAction C a = Inr (Wait n)"
  shows "\<exists>r. n = Fin r \<and> 100 \<le> r \<and> r \<le> 5000"
proof -
  from assms obtain ty where ty: "readProp a ''type'' = Some (JStr ty)"
    by (cases "readProp a ''type''"; cases "the (readProp a ''type'')")
      (simp_all add: buildAction_def)
  from assms ty have "ty = ''wait''"
    by (simp add: buildAction_def Let_def split: if_splits)
  with assms ty have "n = mathMin (Fin 5000)
      (mathMax (Fin 100) (if truthyNum (toNumber C (readProp a ''ms''))
                          then toNumber C (readProp a ''ms'') else Fin 1000))"
    by (simp add: buildAction_def Let_def)
  then show ?thesis using waitMs_range by metis
qed

lemma normalizeParsed_wait_range:
  assumes "normalizeParsed C parsed = Inr (Wait n)"
  shows "\<exists>r. n = Fin r \<and> 100 \<le> r \<and> r \<le> 5000"
proof -
  from assms obtain a where "buildAction C a = Inr (Wait n)"
    by (auto simp: normalizeParsed_def Let_def split: if_splits)
  then show ?thesis by (rule buildAction_wait_range)
qed

lemma parseActionResponse_wait_range:
  assumes "parseActionResponse J C text = Inr (Wait n)"
  shows "\<exists>r. n = Fin r \<and> 100 \<le> r \<and> r \<le> 5000"
proof -
  from assms obtain parsed where "normalizeParsed C parsed = Inr (Wait n)"
    by (auto simp: parseActionResponse_def Let_def split: if_splits option.splits)
  then show ?thesis by (rule normalizeParsed_wait_range)
qed

lemma wait_payload:
  "normalizeParsed C (JObj [(''action'', JObj [(''type'', JStr ''wait''), (''ms'', v)])]) =
     Inr (Wait (case toNumber C (Some v) of
                  NaN \<Rightarrow> Fin 1000
                | PosInf \<Rightarrow> Fin 5000
                | NegInf \<Rightarrow> Fin 100
                | Fin r \<Rightarrow> if r = 0 then Fin 1000 else Fin (max 100 (min 5000 r))))"
  by (cases "toNumber C (Some v)") (auto simp: norm_defs)

lemma wait_any_payload:
  "readProp a ''type'' = Some (JStr ''wait'') \<Longrightarrow>
     buildAction C a =
       Inr (Wait (case toNumber C (readProp a ''ms'') of
                    NaN \<Rightarrow> Fin 1000
                  | PosInf \<Rightarrow> Fin 5000
                  | NegInf \<Rightarrow> Fin 100
                  | Fin r \<Rightarrow> if r = 0 then Fin 1000 else Fin (max 100 (min 5000 r))))"
  by (cases "toNumber C (readProp a ''ms'')") (auto simp: buildAction_def Let_def)

lemma wait_payload_missing:
  "normalizeParsed C (JObj [(''action'', JObj [(''type'', JStr ''wait'')])]) =
     Inr (Wait (Fin 1000))"
  by (simp add: norm_defs)

text \<open>
  C9, as the code has it. Every \<open>wait\<close> action that \<open>parseActionResponse\<close> returns has a
  finite \<open>ms\<close> between 100 and 5000. For the payload \<open>{"action":{"type":"wait","ms":v}}\<close>:
  when \<open>Number(v)\<close> is a finite number other than zero, \<open>ms\<close> is that number raised to 100
  or lowered to 5000; when \<open>Number(v)\<close> is zero or NaN, \<open>ms\<close> is 1000; the infinities give
  5000 and 100. A payload without \<open>ms\<close> gives 1000. The same rule holds in the \<open>switch\<close>
  for every payload whose type is \<open>wait\<close>, whatever its other properties.
\<close>

theorem wait_ms_clamped:
  "(parseActionResponse J C response = Inr (Wait n) \<longrightarrow>
      (\<exists>r. n = Fin r \<and> 100 \<le> r \<and> r \<le> 5000)) \<and>
   normalizeParsed C (JObj [(''action'', JObj [(''type'', JStr ''wait''), (''ms'', v)])]) =
     Inr (Wait (case toNumber C (Some v) of
                  NaN \<Rightarrow> Fin 1000
                | PosInf \<Rightarrow> Fin 5000
                | NegInf \<Rightarrow> Fin 100
                | Fin r \<Rightarrow> if r = 0 then Fin 1000 else Fin (max 100 (min 5000 r)))) \<and>
   normalizeParsed C (JObj [(''action'', JObj [(''type'', JStr ''wait'')])]) =
     Inr (Wait (Fin 1000)) \<and>
   (readProp a ''type'' = Some (JStr ''wait'') \<longrightarrow>
      buildAction C a =
        Inr (Wait (case toNumber C (readProp a ''ms'') of
                     NaN \<Rightarrow> Fin 1000
                   | PosInf \<Rightarrow> Fin 5000
                   | NegInf \<Rightarrow> Fin 100
                   | Fin r \<Rightarrow> if r = 0 then Fin 1000 else Fin (max 100 (min 5000 r)))))"
  using parseActionResponse_wait_range [of J C response n] wait_payload [of C v]
    wait_payload_missing [of C] wait_any_payload [of a C]
  by blast

theorem wait_ms_clamped_witness:
  "parseActionResponse exampleJson exampleCoercions
      ''{\"action\":{\"type\":\"wait\",\"ms\":50}}'' = Inr (Wait (Fin 100)) \<and>
   (\<exists>r. Fin 100 = Fin r \<and> 100 \<le> r \<and> r \<le> 5000) \<and>
   buildAction exampleCoercions
     (JObj [(''type'', JStr ''wait''), (''ms'', JNum (Fin 9000)), (''reason'', JStr ''loading'')])
     = Inr (Wait (Fin 5000))"
proof -
  let ?a = "JObj [(''type'', JStr ''wait''), (''ms'', JNum (Fin 9000)),
      (''reason'', JStr ''loading'')]"
  have h: "parseActionResponse exampleJson exampleCoercions
      ''{\"action\":{\"type\":\"wait\",\"ms\":50}}'' = Inr (Wait (Fin 100))"
    by code_simp
  have ty: "readProp ?a ''type'' = Some (JStr ''wait'')"
    by code_simp
  have ms: "(case toNumber exampleCoercions (readProp ?a ''ms'') of
               NaN \<Rightarrow> Fin 1000
             | PosInf \<Rightarrow> Fin 5000
             | NegInf \<Rightarrow> Fin 100
             | Fin r \<Rightarrow> if r = 0 then Fin 1000 else Fin (max 100 (min 5000 r))) = Fin 5000"
    by code_simp
  note inst = wait_ms_clamped [of exampleJson exampleCoercions
      "''{\"action\":{\"type\":\"wait\",\"ms\":50}}''" "Fin 100" _ ?a]
  from inst h have range: "\<exists>r. Fin 100 = Fin r \<and> 100 \<le> r \<and> r \<le> 5000"
    by blast
  from inst ty have "buildAction exampleCoercions ?a =
      Inr (Wait (case toNumber exampleCoercions (readProp ?a ''ms'') of
               NaN \<Rightarrow> Fin 1000
             | PosInf \<Rightarrow> Fin 5000
             | NegInf \<Rightarrow> Fin 100
             | Fin r \<Rightarrow> if r = 0 then Fin 1000 else Fin (max 100 (min 5000 r))))"
    by blast
  then have "buildAction exampleCoercions ?a = Inr (Wait (Fin 5000))"
    by (simp only: ms)
  with h range show ?thesis
    by (intro conjI)
qed

text \<open>
  C9 as stated fails at \<open>ms = 0\<close>: zero is a number below 100, which the claim raises to 100,
  and the code answers 1000.
\<close>

theorem wait_ms_zero_counterexample:
  "parseActionResponse exampleJson exampleCoercions
      ''{\"action\":{\"type\":\"wait\",\"ms\":0}}'' = Inr (Wait (Fin 1000)) \<and>
   specWaitMs (Fin 0) = Fin 100 \<and>
   Wait (Fin 1000) \<noteq> Wait (specWaitMs (Fin 0))"
  by code_simp

text \<open>The seven shapes after \<open>JSON.parse\<close>.\<close>

lemma click_shapes_parsed:
  "t \<noteq> [] \<Longrightarrow>
   normalizeParsed C (JObj [(''action'', JObj [(''type'', JStr ''click''), (''target'', JStr t)])])
     = Inr (Click t) \<and>
   normalizeParsed C (JObj [(''action'', JObj [(''click'', JStr t)])]) = Inr (Click t) \<and>
   normalizeParsed C (JObj [(''command'', JStr ''click''), (''target'', JStr t)])
     = Inr (Click t) \<and>
   normalizeParsed C (JObj [(''action'', JStr ''click''), (''target'', JStr t)])
     = Inr (Click t) \<and>
   normalizeParsed C (JObj [(''action'', JObj [(''click'', JObj [(''target'', JStr t)])])])
     = Inr (Click t) \<and>
   normalizeParsed C (JObj [(''action'', JObj [(''action'', JStr ''click''), (''target'', JStr t)])])
     = Inr (Click t) \<and>
   normalizeParsed C (JObj [(''action'', JObj [(''command'', JStr ''click''), (''target'', JStr t)])])
     = Inr (Click t)"
  by (simp add: norm_defs)

lemma click_shapes_value:
  assumes "t \<noteq> []" and "parsed \<in> snd ` set (clickShapes t)"
  shows "normalizeParsed C parsed = Inr (Click t)"
  using assms(2) click_shapes_parsed [OF assms(1), of C]
  by (auto simp: clickShapes_def)

text \<open>A text without a code fence passes the two replacements unchanged.\<close>

lemma startsWith_Cons:
  "startsWith (x # xs) (p # ps) = (x = p \<and> startsWith xs ps)"
  by (auto simp: startsWith_def)

lemma startsWith_longer:
  "startsWith s (p @ q) \<Longrightarrow> startsWith s p"
proof -
  assume "startsWith s (p @ q)"
  then have "take (length p) (take (length p + length q) s) = take (length p) (p @ q)"
    by (simp add: startsWith_def)
  then show ?thesis
    by (simp add: startsWith_def min_def)
qed

lemma includesStr_longer:
  "includesStr s (p @ q) \<Longrightarrow> p \<noteq> [] \<Longrightarrow> includesStr s p"
  by (induction s) (auto dest: startsWith_longer)

lemma replaceFence_same:
  "\<not> includesStr s p \<Longrightarrow> replaceFence p s = s"
proof (induction s)
  case Nil
  show ?case by (simp add: replaceFence.simps)
next
  case (Cons x xs)
  then have "\<not> startsWith (x # xs) p" and "replaceFence p xs = xs"
    by simp_all
  then show ?case
    by (subst replaceFence.simps) simp
qed

lemma no_fence_in_plain:
  "b \<notin> set s \<Longrightarrow> \<not> includesStr s [b, b, b]"
  by (induction s) (auto simp: startsWith_def)

lemma fence_after_prefix:
  "b \<notin> set pre \<Longrightarrow> includesStr (pre @ s) [b, b, b] = includesStr s [b, b, b]"
  by (induction pre) (auto simp: startsWith_Cons)

lemma startsWith_before_suffix:
  assumes "b \<notin> set post"
  shows "startsWith (t @ post) [b, b, b] = startsWith t [b, b, b]"
proof (cases post)
  case Nil
  then show ?thesis by simp
next
  case (Cons c cs)
  with assms have c: "c \<noteq> b" by auto
  show ?thesis
  proof (cases t)
    case Nil
    with Cons c show ?thesis by (simp add: startsWith_def)
  next
    case t1: (Cons x1 t')
    show ?thesis
    proof (cases t')
      case Nil
      with t1 Cons c show ?thesis by (auto simp: startsWith_def)
    next
      case t2: (Cons x2 t'')
      show ?thesis
      proof (cases t'')
        case Nil
        with t1 t2 Cons c show ?thesis by (auto simp: startsWith_def)
      next
        case (Cons x3 t''')
        with t1 t2 show ?thesis by (simp add: startsWith_def)
      qed
    qed
  qed
qed

lemma fence_before_suffix:
  "b \<notin> set post \<Longrightarrow> includesStr (t @ post) [b, b, b] = includesStr t [b, b, b]"
proof (induction t)
  case Nil
  then show ?case using no_fence_in_plain [of b post] by (simp add: startsWith_def)
next
  case (Cons x xs)
  from startsWith_before_suffix [OF Cons.prems, of "x # xs"] Cons.IH [OF Cons.prems]
  show ?case by simp
qed

lemma trim_same:
  "s \<noteq> [] \<Longrightarrow> \<not> isSpaceChar (hd s) \<Longrightarrow> \<not> isSpaceChar (last s) \<Longrightarrow> trim s = s"
proof -
  assume s: "s \<noteq> []" and h: "\<not> isSpaceChar (hd s)" and l: "\<not> isSpaceChar (last s)"
  from s h have "dropWhile isSpaceChar s = s"
    by (cases s) simp_all
  moreover from s l have "dropWhile isSpaceChar (rev s) = rev s"
    by (cases "rev s") (simp_all add: last_rev [symmetric] del: last_rev)
  ultimately show ?thesis
    by (simp add: trim_def)
qed

lemma matchBraces_same:
  "s \<noteq> [] \<Longrightarrow> hd s = CHR ''{'' \<Longrightarrow> last s = CHR ''}'' \<Longrightarrow> matchBraces s = Some s"
proof -
  assume s: "s \<noteq> []" and h: "hd s = CHR ''{''" and l: "last s = CHR ''}''"
  from s h have "dropWhile (\<lambda>c. c \<noteq> CHR ''{'') s = s"
    by (cases s) simp_all
  moreover from s l have "dropWhile (\<lambda>c. c \<noteq> CHR ''}'') (rev s) = rev s"
    by (cases "rev s") (simp_all add: last_rev [symmetric] del: last_rev)
  ultimately have "matchBraces s = (if rev (rev s) = [] then None else Some (rev (rev s)))"
    by (simp only: matchBraces_def Let_def)
  with s show ?thesis
    by simp
qed

text \<open>
  A response that is one JSON object (from the opening to the closing brace) and has no code
  fence reaches \<open>JSON.parse\<close> as it is.
\<close>

lemma plain_response:
  assumes "s \<noteq> []" and "hd s = CHR ''{''" and "last s = CHR ''}''"
    and "\<not> includesStr s ''```''"
  shows "parseActionResponse J C s =
           (case J s of None \<Rightarrow> Inl InvalidJson | Some parsed \<Rightarrow> normalizeParsed C parsed)"
proof -
  have sp: "\<not> isSpaceChar (CHR ''{'')" "\<not> isSpaceChar (CHR ''}'')"
    by (simp_all add: isSpaceChar_def)
  from assms(4) includesStr_longer [of s "''```''" "''json''"]
  have "\<not> includesStr s ''```json''"
    by auto
  then have r1: "replaceFence ''```json'' s = s"
    by (rule replaceFence_same)
  from assms(4) have r2: "replaceFence ''```'' s = s"
    by (rule replaceFence_same)
  from assms(1,2,3) sp have tr: "trim s = s"
    by (simp add: trim_same)
  from assms(1,2,3) have mb: "matchBraces s = Some s"
    by (rule matchBraces_same)
  from assms(1) r1 r2 tr mb show ?thesis
    by (simp add: parseActionResponse_def)
qed

lemma framed_response:
  assumes "CHR ''`'' \<notin> set pre" and "CHR ''`'' \<notin> set post"
    and "pre \<noteq> []" and "hd pre = CHR ''{''" and "post \<noteq> []" and "last post = CHR ''}''"
    and "\<not> includesStr t ''```''"
    and "J (pre @ t @ post) = Some parsed"
  shows "parseActionResponse J C (pre @ t @ post) = normalizeParsed C parsed"
proof -
  from assms(1,2,7) have "\<not> includesStr (pre @ t @ post) ''```''"
    by (simp add: fence_after_prefix fence_before_suffix)
  moreover from assms(3,4) have "hd (pre @ t @ post) = CHR ''{''"
    by simp
  moreover from assms(5,6) have "last (pre @ t @ post) = CHR ''}''"
    by simp
  moreover from assms(3) have "pre @ t @ post \<noteq> []"
    by simp
  ultimately show ?thesis
    using assms(8) by (simp add: plain_response)
qed

lemma click_shapes_text:
  assumes t: "t \<noteq> []" and plain: "\<not> includesStr t ''```''"
    and J: "\<forall>(response, parsed) \<in> set (clickShapes t). J response = Some parsed"
  shows "\<forall>(response, parsed) \<in> set (clickShapes t).
           parseActionResponse J C response = Inr (Click t)"
proof -
  {
    fix pre post parsed
    assume fr: "CHR ''`'' \<notin> set pre" "CHR ''`'' \<notin> set post" "pre \<noteq> []"
      "hd pre = CHR ''{''" "post \<noteq> []" "last post = CHR ''}''"
      and mem: "(pre @ t @ post, parsed) \<in> set (clickShapes t)"
    from J mem have "J (pre @ t @ post) = Some parsed"
      by auto
    with fr plain have "parseActionResponse J C (pre @ t @ post) = normalizeParsed C parsed"
      by (rule framed_response)
    moreover from mem have "parsed \<in> snd ` set (clickShapes t)"
      by force
    ultimately have "parseActionResponse J C (pre @ t @ post) = Inr (Click t)"
      using click_shapes_value [OF t] by simp
  }
  note framed = this
  have s1: "parseActionResponse J C (''{\"action\":{\"type\":\"click\",\"target\":\"'' @ t @ ''\"}}'') = Inr (Click t)"
    by (rule framed) (simp_all add: clickShapes_def)
  have s2: "parseActionResponse J C (''{\"action\":{\"click\":\"'' @ t @ ''\"}}'') = Inr (Click t)"
    by (rule framed) (simp_all add: clickShapes_def)
  have s3: "parseActionResponse J C (''{\"command\":\"click\",\"target\":\"'' @ t @ ''\"}'') = Inr (Click t)"
    by (rule framed) (simp_all add: clickShapes_def)
  have s4: "parseActionResponse J C (''{\"action\":\"click\",\"target\":\"'' @ t @ ''\"}'') = Inr (Click t)"
    by (rule framed) (simp_all add: clickShapes_def)
  have s5: "parseActionResponse J C (''{\"action\":{\"click\":{\"target\":\"'' @ t @ ''\"}}}'') = Inr (Click t)"
    by (rule framed) (simp_all add: clickShapes_def)
  have s6: "parseActionResponse J C (''{\"action\":{\"action\":\"click\",\"target\":\"'' @ t @ ''\"}}'') = Inr (Click t)"
    by (rule framed) (simp_all add: clickShapes_def)
  have s7: "parseActionResponse J C (''{\"action\":{\"command\":\"click\",\"target\":\"'' @ t @ ''\"}}'') = Inr (Click t)"
    by (rule framed) (simp_all add: clickShapes_def)
  from s1 s2 s3 s4 s5 s6 s7 show ?thesis
    by (simp add: clickShapes_def)
qed

text \<open>The seven shapes of the empty target.\<close>

lemma click_shapes_empty_value:
  assumes "parsed \<in> snd ` set (clickShapes [])"
  shows "normalizeParsed C parsed = Inl ClickMissingTarget"
  using assms by (auto simp: clickShapes_def norm_defs)

lemma click_shapes_empty_text:
  assumes J: "\<forall>(response, parsed) \<in> set (clickShapes []). J response = Some parsed"
  shows "\<forall>(response, parsed) \<in> set (clickShapes []).
           parseActionResponse J C response = Inl ClickMissingTarget"
proof -
  have plain: "\<not> includesStr [] ''```''"
    by (simp add: no_fence_in_plain)
  {
    fix pre post parsed
    assume fr: "CHR ''`'' \<notin> set pre" "CHR ''`'' \<notin> set post" "pre \<noteq> []"
      "hd pre = CHR ''{''" "post \<noteq> []" "last post = CHR ''}''"
      and mem: "(pre @ [] @ post, parsed) \<in> set (clickShapes [])"
    from J mem have "J (pre @ [] @ post) = Some parsed"
      by auto
    with fr plain have "parseActionResponse J C (pre @ [] @ post) = normalizeParsed C parsed"
      by (rule framed_response)
    moreover from mem have "parsed \<in> snd ` set (clickShapes [])"
      by force
    ultimately have "parseActionResponse J C (pre @ [] @ post) = Inl ClickMissingTarget"
      using click_shapes_empty_value by simp
  }
  note framed = this
  have s1: "parseActionResponse J C (''{\"action\":{\"type\":\"click\",\"target\":\"'' @ [] @ ''\"}}'') = Inl ClickMissingTarget"
    by (rule framed) (simp_all add: clickShapes_def)
  have s2: "parseActionResponse J C (''{\"action\":{\"click\":\"'' @ [] @ ''\"}}'') = Inl ClickMissingTarget"
    by (rule framed) (simp_all add: clickShapes_def)
  have s3: "parseActionResponse J C (''{\"command\":\"click\",\"target\":\"'' @ [] @ ''\"}'') = Inl ClickMissingTarget"
    by (rule framed) (simp_all add: clickShapes_def)
  have s4: "parseActionResponse J C (''{\"action\":\"click\",\"target\":\"'' @ [] @ ''\"}'') = Inl ClickMissingTarget"
    by (rule framed) (simp_all add: clickShapes_def)
  have s5: "parseActionResponse J C (''{\"action\":{\"click\":{\"target\":\"'' @ [] @ ''\"}}}'') = Inl ClickMissingTarget"
    by (rule framed) (simp_all add: clickShapes_def)
  have s6: "parseActionResponse J C (''{\"action\":{\"action\":\"click\",\"target\":\"'' @ [] @ ''\"}}'') = Inl ClickMissingTarget"
    by (rule framed) (simp_all add: clickShapes_def)
  have s7: "parseActionResponse J C (''{\"action\":{\"command\":\"click\",\"target\":\"'' @ [] @ ''\"}}'') = Inl ClickMissingTarget"
    by (rule framed) (simp_all add: clickShapes_def)
  from s1 s2 s3 s4 s5 s6 s7 show ?thesis
    by (simp add: clickShapes_def)
qed

text \<open>
  C3, as the code has it. For every target \<open>t\<close> other than the empty string that contains no
  code fence (three backticks), each of the seven documented shapes of the response text,
  read by \<open>JSON.parse\<close> as the shape says, is normalized by \<open>parseActionResponse\<close> to the click
  on \<open>t\<close>. And whatever the response text is, when the text that is left after the fences are
  stripped and the braces are matched is read by \<open>JSON.parse\<close> as one of the seven shapes of
  a non-empty \<open>t\<close>, the result is the click on \<open>t\<close>. For the empty target each of the seven
  shapes is rejected: the click has no target.
\<close>

theorem click_shapes_normalize:
  "(t \<noteq> [] \<longrightarrow> \<not> includesStr t ''```'' \<longrightarrow>
    (\<forall>(response, parsed) \<in> set (clickShapes t). J response = Some parsed) \<longrightarrow>
    (\<forall>(response, parsed) \<in> set (clickShapes t).
       parseActionResponse J C response = Inr (Click t))) \<and>
   (t \<noteq> [] \<longrightarrow> response \<noteq> [] \<longrightarrow> trim response \<noteq> [] \<longrightarrow>
    matchBraces (trim (replaceFence ''```'' (replaceFence ''```json'' response))) = Some m \<longrightarrow>
    J m = Some parsed \<longrightarrow> parsed \<in> snd ` set (clickShapes t) \<longrightarrow>
    parseActionResponse J C response = Inr (Click t)) \<and>
   ((\<forall>(response, parsed) \<in> set (clickShapes []). J response = Some parsed) \<longrightarrow>
    (\<forall>(response, parsed) \<in> set (clickShapes []).
       parseActionResponse J C response = Inl ClickMissingTarget))"
proof (intro conjI impI)
  assume "t \<noteq> []" "\<not> includesStr t ''```''"
    "\<forall>(response, parsed) \<in> set (clickShapes t). J response = Some parsed"
  then show "\<forall>(response, parsed) \<in> set (clickShapes t).
      parseActionResponse J C response = Inr (Click t)"
    by (rule click_shapes_text)
next
  assume "t \<noteq> []" "response \<noteq> []" "trim response \<noteq> []"
    "matchBraces (trim (replaceFence ''```'' (replaceFence ''```json'' response))) = Some m"
    "J m = Some parsed" "parsed \<in> snd ` set (clickShapes t)"
  then show "parseActionResponse J C response = Inr (Click t)"
    using click_shapes_value [of t parsed C]
    by (simp add: parseActionResponse_def)
next
  assume "\<forall>(response, parsed) \<in> set (clickShapes []). J response = Some parsed"
  then show "\<forall>(response, parsed) \<in> set (clickShapes []).
      parseActionResponse J C response = Inl ClickMissingTarget"
    by (rule click_shapes_empty_text)
qed

lemma btn_1_facts:
  "''btn_1'' \<noteq> [] \<and> \<not> includesStr ''btn_1'' ''```'' \<and>
   (\<forall>(response, parsed) \<in> set (clickShapes ''btn_1''). exampleJson response = Some parsed)"
  by code_simp

lemma empty_target_facts:
  "\<forall>(response, parsed) \<in> set (clickShapes []). exampleJson response = Some parsed"
  by code_simp

lemma fenced_btn_1_facts:
  "''```json'' @ [CHR 0x0A] @ ''{\"action\":{\"click\":\"btn_1\"}}'' @ [CHR 0x0A] @ ''```'' \<noteq> [] \<and>
   trim (''```json'' @ [CHR 0x0A] @ ''{\"action\":{\"click\":\"btn_1\"}}'' @ [CHR 0x0A] @ ''```'')
     \<noteq> [] \<and>
   matchBraces (trim (replaceFence ''```'' (replaceFence ''```json''
     (''```json'' @ [CHR 0x0A] @ ''{\"action\":{\"click\":\"btn_1\"}}'' @ [CHR 0x0A] @ ''```''))))
     = Some ''{\"action\":{\"click\":\"btn_1\"}}'' \<and>
   exampleJson ''{\"action\":{\"click\":\"btn_1\"}}'' =
     Some (JObj [(''action'', JObj [(''click'', JStr ''btn_1'')])]) \<and>
   JObj [(''action'', JObj [(''click'', JStr ''btn_1'')])] \<in> snd ` set (clickShapes ''btn_1'')"
  by code_simp

theorem click_shapes_normalize_witness:
  "list_all (\<lambda>shape. parseActionResponse exampleJson exampleCoercions (fst shape) =
       Inr (Click ''btn_1'')) (clickShapes ''btn_1'') \<and>
   length (clickShapes ''btn_1'') = 7 \<and>
   parseActionResponse exampleJson exampleCoercions
     (''```json'' @ [CHR 0x0A] @ ''{\"action\":{\"click\":\"btn_1\"}}'' @ [CHR 0x0A] @ ''```'')
     = Inr (Click ''btn_1'') \<and>
   list_all (\<lambda>shape. parseActionResponse exampleJson exampleCoercions (fst shape) =
       Inl ClickMissingTarget) (clickShapes [])"
proof -
  note inst = click_shapes_normalize [of "''btn_1''" exampleJson exampleCoercions
      "''```json'' @ [CHR 0x0A] @ ''{\"action\":{\"click\":\"btn_1\"}}'' @ [CHR 0x0A] @ ''```''"
      "''{\"action\":{\"click\":\"btn_1\"}}''"
      "JObj [(''action'', JObj [(''click'', JStr ''btn_1'')])]"]
  from inst btn_1_facts have
    "\<forall>(response, parsed) \<in> set (clickShapes ''btn_1'').
       parseActionResponse exampleJson exampleCoercions response = Inr (Click ''btn_1'')"
    by blast
  then have "list_all (\<lambda>shape. parseActionResponse exampleJson exampleCoercions (fst shape) =
       Inr (Click ''btn_1'')) (clickShapes ''btn_1'')"
    by (auto simp: list_all_iff)
  moreover have "length (clickShapes ''btn_1'') = 7"
    by (simp add: clickShapes_def)
  moreover from inst fenced_btn_1_facts have
    "parseActionResponse exampleJson exampleCoercions
       (''```json'' @ [CHR 0x0A] @ ''{\"action\":{\"click\":\"btn_1\"}}'' @ [CHR 0x0A] @ ''```'')
       = Inr (Click ''btn_1'')"
    by blast
  moreover from inst empty_target_facts have
    "\<forall>(response, parsed) \<in> set (clickShapes []).
       parseActionResponse exampleJson exampleCoercions response = Inl ClickMissingTarget"
    by blast
  then have "list_all (\<lambda>shape. parseActionResponse exampleJson exampleCoercions (fst shape) =
       Inl ClickMissingTarget) (clickShapes [])"
    by (auto simp: list_all_iff)
  ultimately show ?thesis by simp
qed

text \<open>
  C3 as stated fails at the empty target: each of the seven shapes is rejected with the
  missing-target error instead of giving the click on the empty string. It also fails at
  targets that contain a code fence, which is stripped from the response before
  \<open>JSON.parse\<close>: the shorthand with the target of three backticks is rejected, and the
  target \<open>x\<close>, three backticks, space, \<open>y\<close> gives the click on \<open>xy\<close>.
\<close>

theorem click_empty_target_counterexample:
  "map (\<lambda>shape. parseActionResponse exampleJson exampleCoercions (fst shape)) (clickShapes [])
     = replicate 7 (Inl ClickMissingTarget) \<and>
   parseActionResponse exampleJson exampleCoercions ''{\"action\":{\"click\":\"```\"}}''
     = Inl ClickMissingTarget \<and>
   parseActionResponse exampleJson exampleCoercions ''{\"action\":{\"click\":\"x``` y\"}}''
     = Inr (Click ''xy'')"
  by code_simp


subsection \<open>The progress assessor\<close>

text \<open>
  C2. For two URLs that \<open>new URL\<close> accepts, \<open>assessProgress\<close> returns \<open>major\<close> when the paths
  differ, \<open>some\<close> when the paths are equal and the query strings differ, and \<open>none\<close>
  otherwise; the result does not depend on the third argument.
\<close>

theorem assessProgress_rule:
  "P beforeUrl = Some b \<Longrightarrow> P afterUrl = Some a \<Longrightarrow>
   assessProgress P beforeUrl afterUrl prev =
     Inr (if pathname b \<noteq> pathname a then ProgMajor
          else if search b \<noteq> search a then ProgSome
          else ProgNone) \<and>
   assessProgress P beforeUrl afterUrl prev = assessProgress P beforeUrl afterUrl prev'"
  by (simp add: assessProgress_def)

theorem assessProgress_rule_witness:
  "assessProgress exampleUrls ''https://shop.test/home'' ''https://shop.test/account'' None
     = Inr ProgMajor \<and>
   assessProgress exampleUrls ''https://shop.test/home'' ''https://shop.test/home?tab=2'' None
     = Inr ProgSome \<and>
   assessProgress exampleUrls ''https://shop.test/home'' ''https://shop.test/home'' None
     = Inr ProgNone"
proof -
  have home: "exampleUrls ''https://shop.test/home'' = Some \<lparr>pathname = ''/home'', search = []\<rparr>"
    by (simp add: exampleUrls_def)
  have tab: "exampleUrls ''https://shop.test/home?tab=2'' =
      Some \<lparr>pathname = ''/home'', search = ''?tab=2''\<rparr>"
    by (simp add: exampleUrls_def)
  have account: "exampleUrls ''https://shop.test/account'' =
      Some \<lparr>pathname = ''/account'', search = []\<rparr>"
    by (simp add: exampleUrls_def)
  from assessProgress_rule [of exampleUrls _ _ _ _ None None, OF home account]
    assessProgress_rule [of exampleUrls _ _ _ _ None None, OF home tab]
    assessProgress_rule [of exampleUrls _ _ _ _ None None, OF home home]
  show ?thesis by simp
qed

subsection \<open>One iteration of the decision loop\<close>

lemma updateHelpLadder_keeps:
  "stepsWithoutProgress (updateHelpLadder l s) = stepsWithoutProgress l"
  "helpOpened (updateHelpLadder l s) = helpOpened l"
  "searchTermsUsed (updateHelpLadder l s) = searchTermsUsed l"
  by (simp_all add: updateHelpLadder_def)

lemma updateProgressCounter_keeps:
  "phase (updateProgressCounter p l) = phase l"
  "helpOpened (updateProgressCounter p l) = helpOpened l"
  "searchTermsUsed (updateProgressCounter p l) = searchTermsUsed l"
  by (simp_all add: updateProgressCounter_def)

lemma updateProgressCounter_rule:
  "stepsWithoutProgress (updateProgressCounter p l) =
     (case p of
        ProgMajor \<Rightarrow> 0
      | ProgNone \<Rightarrow> stepsWithoutProgress l + 1
      | ProgSome \<Rightarrow> max 0 (stepsWithoutProgress l - 1))"
  by (cases p) (simp_all add: updateProgressCounter_def)

lemma updateProgressCounter_nonneg:
  "0 \<le> stepsWithoutProgress l \<Longrightarrow> 0 \<le> stepsWithoutProgress (updateProgressCounter p l)"
  by (cases p) (simp_all add: updateProgressCounter_def)

lemma observePage_fields:
  "ls_steps (observePage s k st) = ls_steps st"
  "ls_finalStatus (observePage s k st) = ls_finalStatus st"
  "ls_reason (observePage s k st) = ls_reason st"
  "ls_completionEvidence (observePage s k st) = ls_completionEvidence st"
  "ls_previousState (observePage s k st) = ls_previousState st"
  "ls_ladderState (observePage s k st) = updateHelpLadder (ls_ladderState st) s"
  by (simp_all add: observePage_def Let_def)

lemma doneStep_fields:
  "ls_steps (doneStep config e i r ev st) =
     ls_steps st @ [mkStepLog e i (Done r ev)
       \<lparr>res_ok = True, res_notes = ''Agent declared task complete'', res_newUrl = None,
        res_progress = ProgMajor, res_error = None\<rparr>]"
  "ls_ladderState (doneStep config e i r ev st) = ls_ladderState st"
  "ls_finalStatus (doneStep config e i r ev st) \<noteq> Fail"
  "ls_reason (doneStep config e i r ev st) = DoneReason r \<or>
   ls_reason (doneStep config e i r ev st) = HintsNotSatisfied"
  by (simp_all add: doneStep_def Let_def)

lemma executeStep_Continue:
  assumes "executeStep W config e i k a st = Continue st'"
  shows "ls_steps st' =
           ls_steps st @ [mkStepLog e i a (tryExecuteAction W e a (ls_previousState st))]"
    and "ls_ladderState st' =
           updateProgressCounter (res_progress (tryExecuteAction W e a (ls_previousState st)))
             (ls_ladderState st)"
    and "ls_finalStatus st' = ls_finalStatus st"
    and "ls_reason st' = ls_reason st"
    and "ls_completionEvidence st' = ls_completionEvidence st"
    and "stepsWithoutProgress (ls_ladderState st') < 14"
  using assms
  by (auto simp: executeStep_def Let_def split: if_splits option.splits)

lemma executeStep_Break:
  assumes "executeStep W config e i k a st = Break st'"
  shows "ls_steps st' =
           ls_steps st @ [mkStepLog e i a (tryExecuteAction W e a (ls_previousState st))]"
    and "ls_ladderState st' =
           updateProgressCounter (res_progress (tryExecuteAction W e a (ls_previousState st)))
             (ls_ladderState st)"
    and "(14 \<le> stepsWithoutProgress (ls_ladderState st') \<and>
          ls_reason st' = DiscoverabilityBlock \<and> ls_finalStatus st' = Fail \<and>
          ls_completionEvidence st' = ls_completionEvidence st) \<or>
         (stepsWithoutProgress (ls_ladderState st') < 14 \<and>
          ls_reason st' = HintsSatisfied \<and> ls_finalStatus st' = Success)"
  using assms
  by (auto simp: executeStep_def Let_def split: if_splits option.splits)

lemma executeStep_not_Escaped:
  "executeStep W config e i k a st \<noteq> Escaped err"
  by (simp add: executeStep_def Let_def split: option.splits)

text \<open>How an iteration ends the body, and the five ways in which it breaks.\<close>

lemma iteration_Continue:
  assumes "iteration W config i st = Continue st'"
  obtains k a where
    "\<not> timeExhausted W config (w_env W i)"
    "getPageKey (w_parseUrl W) (env_snapshot (w_env W i)) = Some k"
    "decideNextAction W (w_env W i) = Inr a"
    "\<not> isDestructiveAction a (cfg_goal config)"
    "executeStep W config (w_env W i) i k a (observePage (env_snapshot (w_env W i)) k st)
       = Continue st'"
  using assms
  by (auto simp: iteration_def Let_def
      split: if_splits option.splits sum.splits agentAction.splits)

lemma iteration_Break:
  assumes "iteration W config i st = Break st'"
  obtains
    (timeUp) "timeExhausted W config (w_env W i)"
      "st' = st\<lparr>ls_reason := TimeBudgetExhausted (cfg_maxMinutes config),
                ls_finalStatus := (if length (ls_steps st) > 0 then Partial else Fail)\<rparr>"
  | (decisionError) k err where
      "getPageKey (w_parseUrl W) (env_snapshot (w_env W i)) = Some k"
      "decideNextAction W (w_env W i) = Inl err"
      "st' = (observePage (env_snapshot (w_env W i)) k st)\<lparr>ls_reason := DecisionError err\<rparr>"
  | (doneAction) k r ev where
      "getPageKey (w_parseUrl W) (env_snapshot (w_env W i)) = Some k"
      "decideNextAction W (w_env W i) = Inr (Done r ev)"
      "st' = doneStep config (w_env W i) i r ev (observePage (env_snapshot (w_env W i)) k st)"
  | (blocked) k a where
      "getPageKey (w_parseUrl W) (env_snapshot (w_env W i)) = Some k"
      "decideNextAction W (w_env W i) = Inr a"
      "isDestructiveAction a (cfg_goal config)"
      "st' = (observePage (env_snapshot (w_env W i)) k st)
                \<lparr>ls_reason := BlockedDestructive a, ls_finalStatus := Fail\<rparr>"
  | (executed) k a where
      "getPageKey (w_parseUrl W) (env_snapshot (w_env W i)) = Some k"
      "decideNextAction W (w_env W i) = Inr a"
      "\<not> isDestructiveAction a (cfg_goal config)"
      "executeStep W config (w_env W i) i k a (observePage (env_snapshot (w_env W i)) k st)
         = Break st'"
  using assms
  by (auto simp: iteration_def Let_def
      split: if_splits option.splits sum.splits agentAction.splits)

subsection \<open>The states of a run\<close>

lemma stateAt_Suc:
  assumes "stateAt W config (Suc k) = Some st'"
  obtains st where "stateAt W config k = Some st" "k < cfg_maxSteps config"
    "iteration W config k st = Continue st'"
  using assms
  by (auto split: option.splits if_splits iterResult.splits)

lemma updateHelpLadder_phase:
  "phase l \<le> 2 \<Longrightarrow> phase (updateHelpLadder l s) \<le> 2"
  by (simp add: updateHelpLadder_def)

text \<open>What holds whenever the loop is at the test of an iteration.\<close>

lemma stateAt_invariant:
  "stateAt W config k = Some st \<Longrightarrow>
     length (ls_steps st) = k \<and> k \<le> cfg_maxSteps config \<and>
     ls_finalStatus st = Fail \<and> ls_reason st = Unknown \<and> ls_completionEvidence st = [] \<and>
     \<not> helpOpened (ls_ladderState st) \<and> searchTermsUsed (ls_ladderState st) = [] \<and>
     0 \<le> stepsWithoutProgress (ls_ladderState st) \<and>
     stepsWithoutProgress (ls_ladderState st) < 14 \<and>
     phase (ls_ladderState st) \<le> 2"
proof (induction k arbitrary: st)
  case 0
  then have "st = initialState" by simp
  then show ?case by (simp add: initialState_def)
next
  case (Suc k)
  from Suc.prems obtain st0 where
    st0: "stateAt W config k = Some st0" and k: "k < cfg_maxSteps config" and
    it: "iteration W config k st0 = Continue st"
    by (rule stateAt_Suc)
  from it obtain key a where
    ex: "executeStep W config (w_env W k) k key a
           (observePage (env_snapshot (w_env W k)) key st0) = Continue st"
    by (rule iteration_Continue)
  note inv = Suc.IH [OF st0]
  note c = executeStep_Continue [OF ex]
  have "length (ls_steps st) = Suc k"
    using c(1) inv by (simp add: observePage_fields)
  moreover have "Suc k \<le> cfg_maxSteps config"
    using k by simp
  moreover have "ls_finalStatus st = Fail" "ls_reason st = Unknown"
    "ls_completionEvidence st = []"
    using c(3,4,5) inv by (simp_all add: observePage_fields)
  moreover have "\<not> helpOpened (ls_ladderState st)" "searchTermsUsed (ls_ladderState st) = []"
    using c(2) inv
    by (simp_all add: observePage_fields updateProgressCounter_keeps updateHelpLadder_keeps)
  moreover have "0 \<le> stepsWithoutProgress (ls_ladderState st)"
    using c(2) inv updateProgressCounter_nonneg
    by (simp add: observePage_fields updateHelpLadder_keeps)
  moreover have "stepsWithoutProgress (ls_ladderState st) < 14"
    using c(6) .
  moreover have "phase (ls_ladderState st) \<le> 2"
    using c(2) inv
    by (simp add: observePage_fields updateProgressCounter_keeps updateHelpLadder_phase)
  ultimately show ?case by simp
qed

lemma loopFrom_stateAt:
  "stateAt W config k = Some st \<Longrightarrow>
     loopFrom W config k st = loopFrom W config 0 initialState"
proof (induction k arbitrary: st)
  case 0
  then show ?case by simp
next
  case (Suc k)
  from Suc.prems obtain st0 where
    st0: "stateAt W config k = Some st0" and k: "k < cfg_maxSteps config" and
    it: "iteration W config k st0 = Continue st"
    by (rule stateAt_Suc)
  have "loopFrom W config k st0 = loopFrom W config (Suc k) st"
    using k it by (subst loopFrom.simps) simp
  with Suc.IH [OF st0] show ?case by simp
qed

text \<open>
  The loop is left either because the iterations are used up or by a \<open>break\<close> of a reached
  iteration.
\<close>

lemma loopFrom_exit:
  "loopFrom W config k st = Inr st' \<Longrightarrow> stateAt W config k = Some st \<Longrightarrow>
     k \<le> cfg_maxSteps config \<Longrightarrow>
     stateAt W config (cfg_maxSteps config) = Some st' \<or>
     (\<exists>i s. i < cfg_maxSteps config \<and> stateAt W config i = Some s \<and>
            iteration W config i s = Break st')"
proof (induction W config k st rule: loopFrom.induct)
  case (1 W config stepIndex st)
  show ?case
  proof (cases "stepIndex < cfg_maxSteps config")
    case False
    with "1.prems" have "stepIndex = cfg_maxSteps config" "st' = st"
      by (simp_all add: loopFrom.simps)
    with "1.prems" show ?thesis by simp
  next
    case True
    show ?thesis
    proof (cases "iteration W config stepIndex st")
      case (Continue s1)
      with True "1.prems" have run: "loopFrom W config (Suc stepIndex) s1 = Inr st'"
        by (simp add: loopFrom.simps)
      have at: "stateAt W config (Suc stepIndex) = Some s1"
        using True Continue "1.prems" by simp
      from "1.IH" [OF True Continue run at] True show ?thesis by simp
    next
      case (Break s1)
      with True "1.prems" have "st' = s1"
        by (simp add: loopFrom.simps)
      with True Break "1.prems" show ?thesis by blast
    next
      case (Escaped err)
      with True "1.prems" show ?thesis
        by (simp add: loopFrom.simps)
    qed
  qed
qed

lemma exit_cases:
  assumes "loopFrom W config 0 initialState = Inr st'"
  obtains
    (usedUp) "stateAt W config (cfg_maxSteps config) = Some st'"
  | (broke) i s where "i < cfg_maxSteps config" "stateAt W config i = Some s"
      "iteration W config i s = Break st'"
  using loopFrom_exit [OF assms] by auto

text \<open>What a \<open>break\<close> leaves behind, by its cause.\<close>

lemma break_state:
  assumes at: "stateAt W config i = Some s"
    and br: "iteration W config i s = Break st'"
  shows "(length (ls_steps st') = i \<and>
          ((\<exists>a. ls_reason st' = BlockedDestructive a) \<or> (\<exists>e. ls_reason st' = DecisionError e))
          \<and> ls_finalStatus st' = Fail) \<or>
         (length (ls_steps st') = i \<and> (\<exists>m. ls_reason st' = TimeBudgetExhausted m) \<and>
          ls_finalStatus st' = (if 0 < i then Partial else Fail)) \<or>
         (length (ls_steps st') = Suc i \<and> ls_reason st' = DiscoverabilityBlock \<and>
          ls_finalStatus st' = Fail) \<or>
         (length (ls_steps st') = Suc i \<and> ls_finalStatus st' \<noteq> Fail \<and>
          (ls_reason st' = HintsSatisfied \<or> ls_reason st' = HintsNotSatisfied \<or>
           (\<exists>r. ls_reason st' = DoneReason r)))"
proof -
  note inv = stateAt_invariant [OF at]
  from br show ?thesis
  proof (cases rule: iteration_Break)
    case timeUp
    with inv show ?thesis by simp
  next
    case (decisionError k err)
    with inv show ?thesis by (simp add: observePage_fields)
  next
    case (doneAction k r ev)
    with inv doneStep_fields(3,4) [of config "w_env W i" i r ev
        "observePage (env_snapshot (w_env W i)) k s"]
    show ?thesis by (auto simp: doneStep_fields(1) observePage_fields)
  next
    case (blocked k a)
    with inv show ?thesis by (simp add: observePage_fields)
  next
    case (executed k a)
    from executeStep_Break [OF executed(4)] inv show ?thesis
      by (auto simp: observePage_fields)
  qed
qed

lemma break_ladder:
  assumes at: "stateAt W config i = Some s"
    and br: "iteration W config i s = Break st'"
  shows "\<not> helpOpened (ls_ladderState st') \<and> searchTermsUsed (ls_ladderState st') = [] \<and>
         0 \<le> stepsWithoutProgress (ls_ladderState st') \<and> phase (ls_ladderState st') \<le> 2"
proof -
  note inv = stateAt_invariant [OF at]
  from br show ?thesis
  proof (cases rule: iteration_Break)
    case timeUp
    with inv show ?thesis by simp
  next
    case (decisionError k err)
    with inv show ?thesis
      by (simp add: observePage_fields updateHelpLadder_keeps updateHelpLadder_phase)
  next
    case (doneAction k r ev)
    with inv show ?thesis
      by (simp add: doneStep_fields(2) observePage_fields updateHelpLadder_keeps
          updateHelpLadder_phase)
  next
    case (blocked k a)
    with inv show ?thesis
      by (simp add: observePage_fields updateHelpLadder_keeps updateHelpLadder_phase)
  next
    case (executed k a)
    from executeStep_Break(2) [OF executed(4)] inv updateProgressCounter_nonneg show ?thesis
      by (simp add: observePage_fields updateProgressCounter_keeps updateHelpLadder_keeps
          updateHelpLadder_phase)
  qed
qed

lemma exit_ladder:
  assumes "loopFrom W config 0 initialState = Inr st"
  shows "\<not> helpOpened (ls_ladderState st) \<and> searchTermsUsed (ls_ladderState st) = [] \<and>
         0 \<le> stepsWithoutProgress (ls_ladderState st) \<and> phase (ls_ladderState st) \<le> 2"
  using assms
proof (cases rule: exit_cases)
  case usedUp
  from stateAt_invariant [OF usedUp] show ?thesis by simp
next
  case (broke i s)
  from break_ladder [OF broke(2,3)] show ?thesis .
qed

subsection \<open>The help ladder\<close>

lemma mkStepLog_fields:
  "step_action (mkStepLog e i a r) = a"
  "step_result (mkStepLog e i a r) = r"
  "step_i (mkStepLog e i a r) = i"
  "step_snapshot (mkStepLog e i a r) = env_snapshot e"
  by (simp_all add: mkStepLog_def)

lemma counter_after_step:
  assumes "iteration W config k st = Continue st' \<or> iteration W config k st = Break st'"
    and "length (ls_steps st') = Suc (length (ls_steps st))"
    and "case step_action (last (ls_steps st')) of Done _ _ \<Rightarrow> False | _ \<Rightarrow> True"
  shows "stepsWithoutProgress (ls_ladderState st') =
           (case res_progress (step_result (last (ls_steps st'))) of
              ProgMajor \<Rightarrow> 0
            | ProgNone \<Rightarrow> stepsWithoutProgress (ls_ladderState st) + 1
            | ProgSome \<Rightarrow> max 0 (stepsWithoutProgress (ls_ladderState st) - 1))"
  using assms(1)
proof
  assume "iteration W config k st = Continue st'"
  then obtain key a where
    "executeStep W config (w_env W k) k key a
       (observePage (env_snapshot (w_env W k)) key st) = Continue st'"
    by (rule iteration_Continue)
  from executeStep_Continue(1,2) [OF this] show ?thesis
    by (simp add: mkStepLog_fields observePage_fields updateProgressCounter_rule
        updateHelpLadder_keeps split: progressLevel.splits)
next
  assume br: "iteration W config k st = Break st'"
  then show ?thesis
  proof (cases rule: iteration_Break)
    case timeUp
    with assms(2) show ?thesis by simp
  next
    case (decisionError key err)
    with assms(2) show ?thesis by (simp add: observePage_fields)
  next
    case (doneAction key r ev)
    with assms(3) show ?thesis by (simp add: doneStep_fields(1) mkStepLog_fields)
  next
    case (blocked key a)
    with assms(2) show ?thesis by (simp add: observePage_fields)
  next
    case (executed key a)
    from executeStep_Break(1,2) [OF executed(4)] show ?thesis
      by (simp add: mkStepLog_fields observePage_fields updateProgressCounter_rule
          updateHelpLadder_keeps split: progressLevel.splits)
  qed
qed

text \<open>
  C4. An iteration that records a step whose action is not \<open>done\<close> leaves
  \<open>stepsWithoutProgress\<close> at 0 when the progress of the step is \<open>major\<close>, one higher when it
  is \<open>none\<close>, and one lower but not below 0 when it is \<open>some\<close>. The counter is never
  negative, neither when the loop is at the test of an iteration nor when it is left.
\<close>

theorem steps_without_progress_rule:
  "((iteration W config k st = Continue st' \<or> iteration W config k st = Break st') \<longrightarrow>
    length (ls_steps st') = Suc (length (ls_steps st)) \<longrightarrow>
    (case step_action (last (ls_steps st')) of Done _ _ \<Rightarrow> False | _ \<Rightarrow> True) \<longrightarrow>
    stepsWithoutProgress (ls_ladderState st') =
      (case res_progress (step_result (last (ls_steps st'))) of
         ProgMajor \<Rightarrow> 0
       | ProgNone \<Rightarrow> stepsWithoutProgress (ls_ladderState st) + 1
       | ProgSome \<Rightarrow> max 0 (stepsWithoutProgress (ls_ladderState st) - 1))) \<and>
   (stateAt W config k = Some st \<longrightarrow> 0 \<le> stepsWithoutProgress (ls_ladderState st)) \<and>
   (loopFrom W config 0 initialState = Inr st \<longrightarrow>
      0 \<le> stepsWithoutProgress (ls_ladderState st))"
  using counter_after_step [of W config k st st'] stateAt_invariant [of W config k st]
    exit_ladder [of W config st]
  by blast

lemma stall_first_step:
  "(case iteration stallWorld (exampleConfig ''browse the product'' 3) 0 initialState of
      Continue st' \<Rightarrow>
        map step_action (ls_steps st') = [Click ''Browse''] \<and>
        map (\<lambda>s. res_progress (step_result s)) (ls_steps st') = [ProgNone]
    | _ \<Rightarrow> False)"
  by code_simp

theorem steps_without_progress_rule_witness:
  "(case iteration stallWorld (exampleConfig ''browse the product'' 3) 0 initialState of
      Continue st' \<Rightarrow>
        map step_action (ls_steps st') = [Click ''Browse''] \<and>
        stepsWithoutProgress (ls_ladderState st') = 1
    | _ \<Rightarrow> False)"
proof -
  from stall_first_step obtain st' where
    it: "iteration stallWorld (exampleConfig ''browse the product'' 3) 0 initialState
           = Continue st'"
    and acts: "map step_action (ls_steps st') = [Click ''Browse'']"
    and prog: "map (\<lambda>s. res_progress (step_result s)) (ls_steps st') = [ProgNone]"
    by (auto split: iterResult.splits)
  from acts obtain s where s: "ls_steps st' = [s]"
    by auto
  have len: "length (ls_steps st') = Suc (length (ls_steps initialState))"
    using s by (simp add: initialState_def)
  have notDone: "case step_action (last (ls_steps st')) of Done _ _ \<Rightarrow> False | _ \<Rightarrow> True"
    using s acts by simp
  from steps_without_progress_rule
      [of stallWorld "exampleConfig ''browse the product'' 3" 0 initialState st']
    it len notDone
  have "stepsWithoutProgress (ls_ladderState st') =
      (case res_progress (step_result (last (ls_steps st'))) of
         ProgMajor \<Rightarrow> 0
       | ProgNone \<Rightarrow> stepsWithoutProgress (ls_ladderState initialState) + 1
       | ProgSome \<Rightarrow> max 0 (stepsWithoutProgress (ls_ladderState initialState) - 1))"
    by blast
  with s prog have "stepsWithoutProgress (ls_ladderState st') = 1"
    by (simp add: initialState_def)
  with it acts show ?thesis by simp
qed

text \<open>
  C10. Whenever the loop is at the test of an iteration and when it is left, \<open>helpOpened\<close> is
  false and \<open>searchTermsUsed\<close> is empty; so \<open>updateHelpLadder\<close>, which runs on such a state,
  sets phase 2 as soon as the counter is at least 10 and the page shows a help link.
\<close>

theorem help_flags_never_set:
  "(stateAt W config k = Some st \<longrightarrow>
      \<not> helpOpened (ls_ladderState st) \<and> searchTermsUsed (ls_ladderState st) = [] \<and>
      (10 \<le> stepsWithoutProgress (ls_ladderState st) \<and> snap_hasHelpLink snapshot \<longrightarrow>
         phase (updateHelpLadder (ls_ladderState st) snapshot) = 2)) \<and>
   (loopFrom W config 0 initialState = Inr st \<longrightarrow>
      \<not> helpOpened (ls_ladderState st) \<and> searchTermsUsed (ls_ladderState st) = [])"
  using stateAt_invariant [of W config k st] exit_ladder [of W config st]
  by (simp add: updateHelpLadder_def)

lemma help_first_step:
  "(case stateAt helpWorld (exampleConfig ''find the help page'' 3) 1 of
      Some st \<Rightarrow> map step_action (ls_steps st) = [OpenHelp]
    | None \<Rightarrow> False)"
  by code_simp

theorem help_flags_never_set_witness:
  "(case stateAt helpWorld (exampleConfig ''find the help page'' 3) 1 of
      Some st \<Rightarrow>
        map step_action (ls_steps st) = [OpenHelp] \<and>
        \<not> helpOpened (ls_ladderState st) \<and> searchTermsUsed (ls_ladderState st) = []
    | None \<Rightarrow> False)"
proof -
  from help_first_step obtain st where
    at: "stateAt helpWorld (exampleConfig ''find the help page'' 3) 1 = Some st"
    and acts: "map step_action (ls_steps st) = [OpenHelp]"
    by (auto split: option.splits)
  from help_flags_never_set [of helpWorld "exampleConfig ''find the help page'' 3" 1 st] at
  have "\<not> helpOpened (ls_ladderState st) \<and> searchTermsUsed (ls_ladderState st) = []"
    by blast
  with at acts show ?thesis by simp
qed

lemma phase_after_iteration:
  assumes at: "stateAt W config k = Some st"
    and nx: "stateAt W config (Suc k) = Some st'"
  shows "phase (ls_ladderState st') =
           phase (updateHelpLadder (ls_ladderState st) (env_snapshot (w_env W k)))"
proof -
  from nx at have "iteration W config k st = Continue st'"
    by (auto split: if_splits iterResult.splits)
  then obtain key a where
    "executeStep W config (w_env W k) k key a
       (observePage (env_snapshot (w_env W k)) key st) = Continue st'"
    by (rule iteration_Continue)
  from executeStep_Continue(2) [OF this] show ?thesis
    by (simp add: observePage_fields updateProgressCounter_keeps)
qed

text \<open>
  C5, as the code has it. The phase is 0, 1 or 2. From one iteration to the next it never
  goes back to 0 once it has left 0, and it goes down in one case only: from 2 to 1, when the
  condition of phase 2 fails (the counter is below 10 or the page shows no help link) while
  the counter is at least 6 and the page shows a search box.
\<close>

theorem phase_escalation:
  "stateAt W config k = Some st \<Longrightarrow> stateAt W config (Suc k) = Some st' \<Longrightarrow>
   phase (ls_ladderState st) \<le> 2 \<and> phase (ls_ladderState st') \<le> 2 \<and>
   (1 \<le> phase (ls_ladderState st) \<longrightarrow> 1 \<le> phase (ls_ladderState st')) \<and>
   (phase (ls_ladderState st') < phase (ls_ladderState st) \<longleftrightarrow>
      phase (ls_ladderState st) = 2 \<and>
      \<not> (10 \<le> stepsWithoutProgress (ls_ladderState st) \<and>
          snap_hasHelpLink (env_snapshot (w_env W k))) \<and>
      6 \<le> stepsWithoutProgress (ls_ladderState st) \<and>
      snap_hasSearchBox (env_snapshot (w_env W k))) \<and>
   (phase (ls_ladderState st') < phase (ls_ladderState st) \<longrightarrow>
      phase (ls_ladderState st') = 1)"
proof -
  assume at: "stateAt W config k = Some st" and nx: "stateAt W config (Suc k) = Some st'"
  note inv = stateAt_invariant [OF at]
  note inv' = stateAt_invariant [OF nx]
  note ph = phase_after_iteration [OF at nx]
  from inv inv' ph show ?thesis
    by (auto simp: updateHelpLadder_def split: if_splits)
qed

lemma stall_phases:
  "map_option (\<lambda>st. (phase (ls_ladderState st), stepsWithoutProgress (ls_ladderState st)))
     (stateAt stallWorld (exampleConfig ''browse the product'' 20) 11) = Some (2, 11) \<and>
   map_option (\<lambda>st. (phase (ls_ladderState st), stepsWithoutProgress (ls_ladderState st)))
     (stateAt stallWorld (exampleConfig ''browse the product'' 20) 12) = Some (1, 12)"
  by code_simp

theorem phase_escalation_witness:
  "map_option (\<lambda>st. phase (ls_ladderState st))
     (stateAt stallWorld (exampleConfig ''browse the product'' 20) 11) = Some 2 \<and>
   map_option (\<lambda>st. phase (ls_ladderState st))
     (stateAt stallWorld (exampleConfig ''browse the product'' 20) 12) = Some 1 \<and>
   \<not> snap_hasHelpLink (env_snapshot (w_env stallWorld 11)) \<and>
   snap_hasSearchBox (env_snapshot (w_env stallWorld 11))"
proof -
  from stall_phases obtain st st' where
    at: "stateAt stallWorld (exampleConfig ''browse the product'' 20) 11 = Some st"
    and nx: "stateAt stallWorld (exampleConfig ''browse the product'' 20) (Suc 11) = Some st'"
    and ph: "phase (ls_ladderState st) = 2" "stepsWithoutProgress (ls_ladderState st) = 11"
    by auto
  have snap: "\<not> snap_hasHelpLink (env_snapshot (w_env stallWorld 11))"
    "snap_hasSearchBox (env_snapshot (w_env stallWorld 11))"
    by (simp_all add: stallWorld_def exampleWorld_def exampleEnv_def homeSnapshot_def)
  from phase_escalation [OF at nx] ph snap
  have "phase (ls_ladderState st') = 1"
    by simp
  with at nx ph snap show ?thesis by simp
qed

text \<open>
  C5 as stated fails: in the run that stalls on the home page, the phase is 2 at the test of
  iteration 11 (the page of iteration 10 showed a help link) and 1 at the test of
  iteration 12 (the page of iteration 11 shows a search box and no help link).
\<close>

theorem phase_drop_counterexample:
  "map_option (\<lambda>st. phase (ls_ladderState st))
     (stateAt stallWorld (exampleConfig ''browse the product'' 20) 11) = Some 2 \<and>
   map_option (\<lambda>st. phase (ls_ladderState st))
     (stateAt stallWorld (exampleConfig ''browse the product'' 20) 12) = Some 1"
  using stall_phases by auto

subsection \<open>The destructive-action gate\<close>

lemma blocked_iteration:
  assumes "\<not> timeExhausted W config (w_env W k)"
    and "getPageKey (w_parseUrl W) (env_snapshot (w_env W k)) = Some key"
    and "decideNextAction W (w_env W k) = Inr (Click target)"
    and "pattern \<in> set DESTRUCTIVE_PATTERNS"
    and "regexTest pattern (toLowerCase target)"
    and "\<not> regexTest pattern (toLowerCase (cfg_goal config))"
  shows "iteration W config k st =
           Break ((observePage (env_snapshot (w_env W k)) key st)
                    \<lparr>ls_reason := BlockedDestructive (Click target), ls_finalStatus := Fail\<rparr>)"
proof -
  from assms(4,5,6) have "isDestructiveAction (Click target) (cfg_goal config)"
    by (auto simp: isDestructiveAction_def list_ex_iff)
  with assms(1,2,3) show ?thesis
    by (simp add: iteration_def Let_def)
qed

lemma blocked_run:
  assumes at: "stateAt W config k = Some st"
    and k: "k < cfg_maxSteps config"
    and "\<not> timeExhausted W config (w_env W k)"
    and "getPageKey (w_parseUrl W) (env_snapshot (w_env W k)) = Some key"
    and "decideNextAction W (w_env W k) = Inr (Click target)"
    and "pattern \<in> set DESTRUCTIVE_PATTERNS"
    and "regexTest pattern (toLowerCase target)"
    and "\<not> regexTest pattern (toLowerCase (cfg_goal config))"
  shows "runAgentLoop W config =
           Inr \<lparr>r_steps = ls_steps st, r_finalStatus = Fail,
                r_reason = BlockedDestructive (Click target), r_completionEvidence = []\<rparr>"
proof -
  let ?st' = "(observePage (env_snapshot (w_env W k)) key st)
                \<lparr>ls_reason := BlockedDestructive (Click target), ls_finalStatus := Fail\<rparr>"
  have "iteration W config k st = Break ?st'"
    using assms(3-8) by (rule blocked_iteration)
  with k have "loopFrom W config k st = Inr ?st'"
    by (subst loopFrom.simps) simp
  with loopFrom_stateAt [OF at] have run: "loopFrom W config 0 initialState = Inr ?st'"
    by simp
  note inv = stateAt_invariant [OF at]
  from inv k have "finish config ?st' =
      \<lparr>r_steps = ls_steps st, r_finalStatus = Fail,
       r_reason = BlockedDestructive (Click target), r_completionEvidence = []\<rparr>"
    by (simp add: finish_def observePage_fields)
  with run show ?thesis
    by (simp add: runAgentLoop_def)
qed

lemma delete_my_account:
  "isDestructiveAction (Click ''Delete my account'') ''browse the product'' \<and>
   \<not> isDestructiveAction (Click ''Delete my account'') ''delete my account''"
  by code_simp

text \<open>
  C1, as the code has it. When the loop reaches an iteration within its budgets and the
  decision is a click whose target, in lower case, is matched by one of the patterns
  \<open>/\bkeyword\b/i\<close> (the keyword as a whole word, with \<open>\s+\<close> for the space inside a keyword)
  while the goal, in lower case, is not matched by that pattern, the run ends at once with
  status \<open>fail\<close> and the reason naming the click, and the click is not recorded as a step. The
  click on \<open>Delete my account\<close> is blocked for the goal \<open>browse the product\<close> and not for the
  goal \<open>delete my account\<close>.
\<close>

theorem destructive_click_blocked:
  "(stateAt W config k = Some st \<longrightarrow> k < cfg_maxSteps config \<longrightarrow>
    \<not> timeExhausted W config (w_env W k) \<longrightarrow>
    getPageKey (w_parseUrl W) (env_snapshot (w_env W k)) = Some key \<longrightarrow>
    decideNextAction W (w_env W k) = Inr (Click target) \<longrightarrow>
    pattern \<in> set DESTRUCTIVE_PATTERNS \<longrightarrow>
    regexTest pattern (toLowerCase target) \<longrightarrow>
    \<not> regexTest pattern (toLowerCase (cfg_goal config)) \<longrightarrow>
    runAgentLoop W config =
      Inr \<lparr>r_steps = ls_steps st, r_finalStatus = Fail,
           r_reason = BlockedDestructive (Click target), r_completionEvidence = []\<rparr>) \<and>
   isDestructiveAction (Click ''Delete my account'') ''browse the product'' \<and>
   \<not> isDestructiveAction (Click ''Delete my account'') ''delete my account''"
  using blocked_run [of W config k st key target pattern] delete_my_account
  by blast

lemma delete_world_facts:
  "\<not> timeExhausted deleteWorld (exampleConfig ''browse the product'' 3) (w_env deleteWorld 0) \<and>
   getPageKey (w_parseUrl deleteWorld) (env_snapshot (w_env deleteWorld 0))
     = Some ''/home::Welcome'' \<and>
   decideNextAction deleteWorld (w_env deleteWorld 0) = Inr (Click ''Delete my account'') \<and>
   regexTest (word ''delete'') (toLowerCase ''Delete my account'') \<and>
   \<not> regexTest (word ''delete'')
       (toLowerCase (cfg_goal (exampleConfig ''browse the product'' 3)))"
  by code_simp

theorem destructive_click_blocked_witness:
  "runAgentLoop deleteWorld (exampleConfig ''browse the product'' 3) =
     Inr \<lparr>r_steps = [], r_finalStatus = Fail,
          r_reason = BlockedDestructive (Click ''Delete my account''),
          r_completionEvidence = []\<rparr>"
proof -
  have at: "stateAt deleteWorld (exampleConfig ''browse the product'' 3) 0 = Some initialState"
    by simp
  have k: "0 < cfg_maxSteps (exampleConfig ''browse the product'' 3)"
    by (simp add: exampleConfig_def)
  have pat: "word ''delete'' \<in> set DESTRUCTIVE_PATTERNS"
    by (simp add: DESTRUCTIVE_PATTERNS_def)
  from destructive_click_blocked
      [of deleteWorld "exampleConfig ''browse the product'' 3" 0 initialState
        "''/home::Welcome''" "''Delete my account''" "word ''delete''"]
    at k pat delete_world_facts
  have "runAgentLoop deleteWorld (exampleConfig ''browse the product'' 3) =
     Inr \<lparr>r_steps = ls_steps initialState, r_finalStatus = Fail,
          r_reason = BlockedDestructive (Click ''Delete my account''),
          r_completionEvidence = []\<rparr>"
    by blast
  then show ?thesis by (simp add: initialState_def)
qed

text \<open>
  C1 as stated fails: \<open>Deleted items\<close> contains the keyword \<open>delete\<close> and the goal
  \<open>browse the product\<close> does not, yet the click is not blocked; it is executed and recorded.
\<close>

theorem deleted_items_counterexample:
  "specIsDestructive ''Deleted items'' ''browse the product'' \<and>
   \<not> isDestructiveAction (Click ''Deleted items'') ''browse the product'' \<and>
   (case runAgentLoop deletedItemsWorld (exampleConfig ''browse the product'' 1) of
      Inr r \<Rightarrow>
        map step_action (r_steps r) = [Click ''Deleted items''] \<and>
        r_reason r = StepBudgetExhausted 1
    | Inl _ \<Rightarrow> False)"
  by code_simp

subsection \<open>The status after the loop\<close>

lemma exit_state:
  assumes "loopFrom W config 0 initialState = Inr st"
  shows "(stateAt W config (cfg_maxSteps config) = Some st \<and>
          length (ls_steps st) = cfg_maxSteps config \<and> ls_finalStatus st = Fail \<and>
          ls_reason st = Unknown) \<or>
         (length (ls_steps st) < cfg_maxSteps config \<and>
          ((\<exists>a. ls_reason st = BlockedDestructive a) \<or> (\<exists>e. ls_reason st = DecisionError e))
          \<and> ls_finalStatus st = Fail) \<or>
         (length (ls_steps st) < cfg_maxSteps config \<and>
          (\<exists>m. ls_reason st = TimeBudgetExhausted m) \<and>
          ls_finalStatus st = (if 0 < length (ls_steps st) then Partial else Fail)) \<or>
         (length (ls_steps st) \<le> cfg_maxSteps config \<and> ls_reason st = DiscoverabilityBlock \<and>
          ls_finalStatus st = Fail) \<or>
         (ls_finalStatus st \<noteq> Fail \<and>
          (ls_reason st = HintsSatisfied \<or> ls_reason st = HintsNotSatisfied \<or>
           (\<exists>r. ls_reason st = DoneReason r)))"
  using assms
proof (cases rule: exit_cases)
  case usedUp
  from stateAt_invariant [OF usedUp] usedUp show ?thesis by simp
next
  case (broke i s)
  from break_state [OF broke(2,3)] broke(1) show ?thesis
    by (elim disjE) auto
qed

text \<open>
  C8, as the code has it. The result is \<open>partial\<close> with the reason \<open>Step budget exhausted\<close>
  exactly when the loop is left with as many recorded steps as \<open>maxSteps\<close> and the status
  \<open>fail\<close>. A blocked destructive action, a decision error and the time budget running out
  before the first step leave \<open>fail\<close> with their reason. The discoverability block leaves
  \<open>fail\<close> with its reason when it comes before the last permitted step; on the last permitted
  step its \<open>fail\<close> is replaced by \<open>partial\<close> with \<open>Step budget exhausted\<close>. When all
  iterations are used up the result is \<open>partial\<close> with \<open>Step budget exhausted\<close>.
\<close>

theorem final_status_after_loop:
  "loopFrom W config 0 initialState = Inr st \<Longrightarrow> runAgentLoop W config = Inr res \<Longrightarrow>
   ((r_finalStatus res = Partial \<and> r_reason res = StepBudgetExhausted (cfg_maxSteps config))
      \<longleftrightarrow> (cfg_maxSteps config \<le> length (ls_steps st) \<and> ls_finalStatus st = Fail)) \<and>
   ((\<exists>a. ls_reason st = BlockedDestructive a) \<or> (\<exists>e. ls_reason st = DecisionError e) \<or>
    ((\<exists>m. ls_reason st = TimeBudgetExhausted m) \<and> ls_steps st = []) \<longrightarrow>
      r_finalStatus res = Fail \<and> r_reason res = ls_reason st) \<and>
   (ls_reason st = DiscoverabilityBlock \<longrightarrow>
      ls_finalStatus st = Fail \<and>
      (if length (ls_steps st) < cfg_maxSteps config
       then r_finalStatus res = Fail \<and> r_reason res = DiscoverabilityBlock
       else r_finalStatus res = Partial \<and>
            r_reason res = StepBudgetExhausted (cfg_maxSteps config))) \<and>
   (stateAt W config (cfg_maxSteps config) = Some st \<longrightarrow>
      r_finalStatus res = Partial \<and> r_reason res = StepBudgetExhausted (cfg_maxSteps config))"
proof -
  assume run: "loopFrom W config 0 initialState = Inr st"
    and res: "runAgentLoop W config = Inr res"
  from run res have fin: "res = finish config st"
    by (simp add: runAgentLoop_def)
  note top = stateAt_invariant [of W config "cfg_maxSteps config" st]
  from exit_state [OF run] show ?thesis
    unfolding fin finish_def
    using top by (elim disjE) (auto split: if_splits)
qed

lemma delete_world_exit:
  "(case loopFrom deleteWorld (exampleConfig ''browse the product'' 3) 0 initialState of
      Inr st \<Rightarrow> ls_reason st = BlockedDestructive (Click ''Delete my account'')
    | Inl _ \<Rightarrow> False)"
  by code_simp

theorem final_status_after_loop_witness:
  "(case runAgentLoop deleteWorld (exampleConfig ''browse the product'' 3) of
      Inr res \<Rightarrow>
        r_finalStatus res = Fail \<and>
        r_reason res = BlockedDestructive (Click ''Delete my account'')
    | Inl _ \<Rightarrow> False)"
proof -
  from delete_world_exit obtain st where
    run: "loopFrom deleteWorld (exampleConfig ''browse the product'' 3) 0 initialState = Inr st"
    and why: "ls_reason st = BlockedDestructive (Click ''Delete my account'')"
    by (auto split: sum.splits)
  have res: "runAgentLoop deleteWorld (exampleConfig ''browse the product'' 3)
      = Inr (finish (exampleConfig ''browse the product'' 3) st)"
    using run by (simp add: runAgentLoop_def)
  from final_status_after_loop [OF run res] why
  have "r_finalStatus (finish (exampleConfig ''browse the product'' 3) st) = Fail \<and>
        r_reason (finish (exampleConfig ''browse the product'' 3) st) =
          BlockedDestructive (Click ''Delete my account'')"
    by simp
  with res show ?thesis by simp
qed

lemma stall_exit:
  "(case loopFrom stallWorld (exampleConfig ''browse the product'' 14) 0 initialState of
      Inr st \<Rightarrow>
        ls_finalStatus st = Fail \<and> ls_reason st = DiscoverabilityBlock \<and>
        length (ls_steps st) = 14 \<and>
        stepsWithoutProgress (ls_ladderState st) = 14
    | Inl _ \<Rightarrow> False)"
  by code_simp

text \<open>
  C8 as stated fails: with \<open>maxSteps = 14\<close> and fourteen steps without progress, the loop is
  left by the discoverability block with status \<open>fail\<close>, and the result is \<open>partial\<close> with
  the reason \<open>Step budget exhausted\<close>.
\<close>

theorem fail_overwritten_counterexample:
  "(case loopFrom stallWorld (exampleConfig ''browse the product'' 14) 0 initialState of
      Inr st \<Rightarrow> ls_finalStatus st = Fail \<and> ls_reason st = DiscoverabilityBlock
    | Inl _ \<Rightarrow> False) \<and>
   (case runAgentLoop stallWorld (exampleConfig ''browse the product'' 14) of
      Inr res \<Rightarrow> r_finalStatus res = Partial \<and> r_reason res = StepBudgetExhausted 14
    | Inl _ \<Rightarrow> False)"
  using stall_exit
  by (auto simp: runAgentLoop_def finish_def exampleConfig_def split: sum.splits)

subsection \<open>The run evaluator\<close>

lemma getPageKey_nonempty:
  "getPageKey P s = Some k \<Longrightarrow> k \<noteq> []"
  by (auto simp: getPageKey_def split: option.splits)

text \<open>Runs: a list that is one run, a run in front of another page, and two lists side by side.\<close>

lemma groupRuns_same:
  assumes "xs \<noteq> []" and "\<forall>x \<in> set xs. f x = k"
  shows "groupRuns f xs = [xs]"
proof -
  from assms(1) obtain y ys where xs: "xs = y # ys"
    by (cases xs) auto
  with assms(2) have all: "\<forall>z \<in> set ys. f z = f y"
    by simp
  then have "takeWhile (\<lambda>z. f z = f y) ys = ys" and "dropWhile (\<lambda>z. f z = f y) ys = []"
    by (simp_all add: takeWhile_eq_all_conv dropWhile_eq_Nil_conv)
  then show ?thesis
    unfolding xs by (simp only: groupRuns.simps)
qed

lemma groupRuns_run_then:
  assumes "stall \<noteq> []" and "\<forall>x \<in> set stall. f x = k"
    and "post = [] \<or> f (hd post) \<noteq> k"
  shows "groupRuns f (stall @ post) = stall # groupRuns f post"
proof -
  from assms(1) obtain x xs where stall: "stall = x # xs"
    by (cases stall) auto
  with assms(2) have x: "f x = k" and xs: "\<forall>y \<in> set xs. f y = k"
    by simp_all
  from assms(3) have tw: "takeWhile (\<lambda>y. f y = k) post = []"
    and dw: "dropWhile (\<lambda>y. f y = k) post = post"
    by (cases post; auto)+
  from xs tw have "takeWhile (\<lambda>y. f y = k) (xs @ post) = xs"
    by (simp add: takeWhile_append2)
  moreover from xs dw have "dropWhile (\<lambda>y. f y = k) (xs @ post) = post"
    by (simp add: dropWhile_append2)
  ultimately show ?thesis
    using stall x by simp
qed

lemma last_dropWhile:
  "dropWhile Q xs \<noteq> [] \<Longrightarrow> last (dropWhile Q xs) = last xs"
proof -
  assume ne: "dropWhile Q xs \<noteq> []"
  have "last xs = last (takeWhile Q xs @ dropWhile Q xs)"
    by simp
  also have "\<dots> = last (dropWhile Q xs)"
    using ne by (simp only: last_append if_False)
  finally show ?thesis by simp
qed

lemma groupRuns_append:
  "pre = [] \<or> rest = [] \<or> f (last pre) \<noteq> f (hd rest) \<Longrightarrow>
     groupRuns f (pre @ rest) = groupRuns f pre @ groupRuns f rest"
proof (induction f pre rule: groupRuns.induct)
  case (1 f)
  show ?case by simp
next
  case (2 f x xs)
  let ?Q = "\<lambda>y. f y = f x"
  show ?case
  proof (cases "\<forall>y \<in> set xs. ?Q y")
    case True
    then have lastx: "f (last (x # xs)) = f x"
      by (cases "xs = []") simp_all
    with "2.prems" have "rest = [] \<or> f (hd rest) \<noteq> f x"
      by auto
    with True groupRuns_run_then [of "x # xs" f "f x" rest]
    have "groupRuns f ((x # xs) @ rest) = (x # xs) # groupRuns f rest"
      by simp
    moreover from True have "groupRuns f (x # xs) = [x # xs]"
      by (intro groupRuns_same [where k = "f x"]) simp_all
    ultimately show ?thesis
      by (simp only: append.simps)
  next
    case False
    then have ne: "dropWhile ?Q xs \<noteq> []"
      by (simp add: dropWhile_eq_Nil_conv)
    from False have tw: "takeWhile ?Q (xs @ rest) = takeWhile ?Q xs"
      and dw: "dropWhile ?Q (xs @ rest) = dropWhile ?Q xs @ rest"
      by (auto simp: takeWhile_append1 dropWhile_append1)
    from ne have "xs \<noteq> []" by auto
    with last_dropWhile [OF ne] have "last (dropWhile ?Q xs) = last (x # xs)"
      by simp
    with "2.prems" ne have "dropWhile ?Q xs = [] \<or> rest = [] \<or>
        f (last (dropWhile ?Q xs)) \<noteq> f (hd rest)"
      by auto
    from "2.IH" [OF this] tw dw show ?thesis
      by simp
  qed
qed

lemma concat_groupRuns:
  "concat (groupRuns f xs) = xs"
  by (induction f xs rule: groupRuns.induct) simp_all

lemma member_length_le:
  "r \<in> set rs \<Longrightarrow> length r \<le> length (concat rs)"
  by (induction rs) auto

lemma run_length_le:
  "r \<in> set (groupRuns f xs) \<Longrightarrow> length r \<le> length xs"
  using member_length_le [of r "groupRuns f xs"]
  by (simp add: concat_groupRuns)

lemma short_runs:
  assumes "length xs < 3"
  shows "(\<Sum>r\<leftarrow>groupRuns f xs. length r div 3) = 0"
proof -
  have "\<forall>r \<in> set (groupRuns f xs). length r div 3 = 0"
    using run_length_le [of _ f xs] assms by fastforce
  then show ?thesis
    by (simp add: sum_list_eq_0_iff)
qed

text \<open>
  The loop of \<open>detectStuckEvents\<close>: with the counter at \<open>cc\<close>, the steps that go on with the
  last key add to the counter; every later run counts from 1.
\<close>

lemma stuckLoop_runs:
  "\<forall>s \<in> set steps. stepKey P s \<noteq> None \<Longrightarrow> cc < 3 \<Longrightarrow>
     stuckLoop P steps sc cc lastKey =
       Some (sc +
             (cc + length (takeWhile (\<lambda>s. stepKey P s = Some lastKey) steps)) div 3 +
             (\<Sum>r\<leftarrow>groupRuns (stepKey P)
                   (dropWhile (\<lambda>s. stepKey P s = Some lastKey) steps). length r div 3))"
proof (induction steps arbitrary: sc cc lastKey)
  case Nil
  then show ?case by simp
next
  case (Cons s steps)
  from Cons.prems(1) obtain k where k: "stepKey P s = Some k"
    by auto
  then have gk: "getPageKey P (step_snapshot s) = Some k"
    by (simp add: stepKey_def)
  from Cons.prems(1) have rest: "\<forall>s \<in> set steps. stepKey P s \<noteq> None"
    by simp
  show ?case
  proof (cases "k = lastKey")
    case False
    have "stuckLoop P (s # steps) sc cc lastKey = stuckLoop P steps sc 1 k"
      using gk False by simp
    also have "\<dots> = Some (sc +
        (1 + length (takeWhile (\<lambda>s. stepKey P s = Some k) steps)) div 3 +
        (\<Sum>r\<leftarrow>groupRuns (stepKey P)
              (dropWhile (\<lambda>s. stepKey P s = Some k) steps). length r div 3))"
      using Cons.IH [OF rest, of 1 sc k] by simp
    finally show ?thesis
      using k False Cons.prems(2) by simp
  next
    case True
    let ?n = "length (takeWhile (\<lambda>s. stepKey P s = Some lastKey) steps)"
    show ?thesis
    proof (cases "cc = 2")
      case cc: True
      have "stuckLoop P (s # steps) sc cc lastKey = stuckLoop P steps (sc + 1) 0 lastKey"
        using gk True cc by simp
      also have "\<dots> = Some (sc + 1 + (0 + ?n) div 3 +
          (\<Sum>r\<leftarrow>groupRuns (stepKey P)
                (dropWhile (\<lambda>s. stepKey P s = Some lastKey) steps). length r div 3))"
        using Cons.IH [OF rest, of 0 "sc + 1" lastKey] by simp
      finally show ?thesis
        using k True cc by simp
    next
      case False
      with Cons.prems(2) have small: "cc + 1 < 3" by simp
      have "stuckLoop P (s # steps) sc cc lastKey = stuckLoop P steps sc (cc + 1) lastKey"
        using gk True small by simp
      also have "\<dots> = Some (sc + (cc + 1 + ?n) div 3 +
          (\<Sum>r\<leftarrow>groupRuns (stepKey P)
                (dropWhile (\<lambda>s. stepKey P s = Some lastKey) steps). length r div 3))"
        using Cons.IH [OF rest small, of sc lastKey] by simp
      finally show ?thesis
        using k True by simp
    qed
  qed
qed

lemma detectStuckEvents_runs:
  assumes "\<forall>s \<in> set steps. stepKey P s \<noteq> None"
  shows "detectStuckEvents P steps =
           Some (\<Sum>r\<leftarrow>groupRuns (stepKey P) steps. length r div 3)"
proof (cases "length steps < 3")
  case True
  then show ?thesis
    by (simp add: detectStuckEvents_def short_runs)
next
  case False
  then obtain s rest where steps: "steps = s # rest"
    by (cases steps) auto
  with assms obtain k where k: "stepKey P s = Some k"
    by auto
  then have "k \<noteq> []"
    using getPageKey_nonempty [of P "step_snapshot s" k] by (simp add: stepKey_def)
  with k steps have "takeWhile (\<lambda>s. stepKey P s = Some []) steps = []"
    and "dropWhile (\<lambda>s. stepKey P s = Some []) steps = steps"
    by simp_all
  with stuckLoop_runs [OF assms, of 1 0 "[]"] False show ?thesis
    by (simp add: detectStuckEvents_def)
qed

text \<open>The loop of \<open>findStuckWindows\<close>: the window in progress is the start of the next run.\<close>

lemma windowsLoop_runs:
  "\<forall>s \<in> set steps. stepKey P s \<noteq> None \<Longrightarrow> cur \<noteq> [] \<Longrightarrow>
   \<forall>c \<in> set cur. stepKey P c = Some lastKey \<Longrightarrow>
     windowsLoop P steps ws cur lastKey =
       Some (ws @ filter (\<lambda>w. 3 \<le> length w) (groupRuns (stepKey P) (cur @ steps)))"
proof (induction steps arbitrary: ws cur lastKey)
  case Nil
  then show ?case
    by (simp add: groupRuns_same [of cur "stepKey P" "Some lastKey"])
next
  case (Cons s steps)
  from Cons.prems(1) obtain k where k: "stepKey P s = Some k"
    by auto
  then have gk: "getPageKey P (step_snapshot s) = Some k"
    by (simp add: stepKey_def)
  from Cons.prems(1) have rest: "\<forall>s \<in> set steps. stepKey P s \<noteq> None"
    by simp
  show ?case
  proof (cases "k = lastKey")
    case True
    with k Cons.prems(3) have "\<forall>c \<in> set (cur @ [s]). stepKey P c = Some lastKey"
      by simp
    from Cons.IH [OF rest _ this, of ws] gk True show ?thesis
      by simp
  next
    case False
    let ?ws = "if 3 \<le> length cur then ws @ [cur] else ws"
    have "windowsLoop P (s # steps) ws cur lastKey = windowsLoop P steps ?ws [s] k"
      using gk False by simp
    also have "\<dots> = Some (?ws @ filter (\<lambda>w. 3 \<le> length w)
        (groupRuns (stepKey P) ([s] @ steps)))"
      using Cons.IH [OF rest, of "[s]" k ?ws] k by simp
    also have "groupRuns (stepKey P) (cur @ s # steps) =
        cur # groupRuns (stepKey P) (s # steps)"
      using groupRuns_run_then [of cur "stepKey P" "Some lastKey" "s # steps"]
        Cons.prems(2,3) k False by simp
    ultimately show ?thesis
      by simp
  qed
qed

lemma findStuckWindows_runs:
  assumes "\<forall>s \<in> set steps. stepKey P s \<noteq> None"
  shows "findStuckWindows P steps =
           Some (filter (\<lambda>w. 3 \<le> length w) (groupRuns (stepKey P) steps))"
proof (cases steps)
  case Nil
  then show ?thesis by (simp add: findStuckWindows_def)
next
  case (Cons s rest)
  with assms obtain k where k: "stepKey P s = Some k"
    and rest: "\<forall>s \<in> set rest. stepKey P s \<noteq> None"
    by auto
  then have gk: "getPageKey P (step_snapshot s) = Some k"
    by (simp add: stepKey_def)
  from getPageKey_nonempty [OF gk] have "k \<noteq> []" .
  with Cons gk windowsLoop_runs [OF rest, of "[s]" k "[]"] k show ?thesis
    by (simp add: findStuckWindows_def)
qed

lemma windowFinding_short:
  "concat (map windowFinding (filter (\<lambda>w. 3 \<le> length w) rs)) = concat (map windowFinding rs)"
  by (induction rs) (simp_all add: windowFinding_def)

lemma stuckWindowFindings_runs:
  assumes "\<forall>s \<in> set steps. stepKey P s \<noteq> None"
  shows "stuckWindowFindings P steps =
           Some (concat (map windowFinding (groupRuns (stepKey P) steps)))"
  using findStuckWindows_runs [OF assms]
  by (simp add: stuckWindowFindings_def windowFinding_short)

text \<open>\<open>calculateMetrics\<close>: when it returns, and what it gives for the stuck events.\<close>

lemma metricsLoop_total:
  "\<forall>s \<in> set steps. P (step_url s) \<noteq> None \<and> stepKey P s \<noteq> None \<Longrightarrow>
   (case prev of None \<Rightarrow> True | Some p \<Rightarrow> P (step_url p) \<noteq> None) \<Longrightarrow>
     \<exists>acc'. metricsLoop P prev steps acc = Some acc'"
proof (induction steps arbitrary: prev acc)
  case Nil
  show ?case by simp
next
  case (Cons s steps)
  from Cons.prems(1) obtain u k where
    u: "P (step_url s) = Some u" and k: "getPageKey P (step_snapshot s) = Some k"
    by (auto simp: stepKey_def)
  from Cons.prems(1) have rest: "\<forall>s \<in> set steps. P (step_url s) \<noteq> None \<and> stepKey P s \<noteq> None"
    by simp
  have next_prev: "case Some s of None \<Rightarrow> True | Some p \<Rightarrow> P (step_url p) \<noteq> None"
    using u by simp
  note ih = Cons.IH [OF rest next_prev]
  show ?case
  proof (cases prev)
    case None
    with k ih show ?thesis by (simp add: Let_def)
  next
    case (Some p)
    with Cons.prems(2) obtain pu where "P (step_url p) = Some pu"
      by auto
    with Some u k ih show ?thesis by (simp add: Let_def)
  qed
qed

lemma calculateMetrics_stuck:
  "calculateMetrics P startNow endNow steps = Some m \<Longrightarrow>
     detectStuckEvents P steps = Some (m_stuckEvents m)"
  by (auto simp: calculateMetrics_def split: option.splits)

lemma calculateMetrics_total:
  assumes keys: "\<forall>s \<in> set steps. stepKey P s \<noteq> None"
    and urls: "\<forall>s \<in> set steps. P (step_url s) \<noteq> None"
  shows "\<exists>m. calculateMetrics P startNow endNow steps = Some m"
proof -
  from keys urls have "\<forall>s \<in> set steps. P (step_url s) \<noteq> None \<and> stepKey P s \<noteq> None"
    by simp
  from metricsLoop_total [OF this, of None] obtain acc' where
    "metricsLoop P None steps
       \<lparr>acc_pageTransitions = 0, acc_backtracks = 0, acc_searchUsed = False,
        acc_consoleErrors = 0, acc_failedRequests = 0, acc_pageVisits = []\<rparr> = Some acc'"
    by auto
  with detectStuckEvents_runs [OF keys] show ?thesis
    by (simp add: calculateMetrics_def)
qed

text \<open>A trace that stays on one page: its backtracks and the steps that backtrack.\<close>

lemma metricsLoop_backtracks_same:
  "\<forall>s \<in> set steps. stepKey P s = Some k \<Longrightarrow> metricsLoop P prev steps acc = Some acc' \<Longrightarrow>
     acc_backtracks acc' =
       acc_backtracks acc +
       (if k \<in> set (acc_pageVisits acc) then length steps else length steps - 1)"
proof (induction steps arbitrary: prev acc)
  case Nil
  then show ?case by simp
next
  case (Cons s steps)
  from Cons.prems(1) have k: "getPageKey P (step_snapshot s) = Some k"
    and rest: "\<forall>s \<in> set steps. stepKey P s = Some k"
    by (simp_all add: stepKey_def)
  from Cons.prems(2) k obtain acc1 where
    run: "metricsLoop P (Some s) steps acc1 = Some acc'"
    and b: "acc_backtracks acc1 =
        acc_backtracks acc + (if k \<in> set (acc_pageVisits acc) then 1 else 0)"
    and v: "acc_pageVisits acc1 = acc_pageVisits acc @ [k]"
    by (auto simp: Let_def split: option.splits)
  from Cons.IH [OF rest run] b v show ?case
    by simp
qed

lemma calculateMetrics_backtracks_same:
  assumes "\<forall>s \<in> set steps. stepKey P s = Some k"
    and "calculateMetrics P startNow endNow steps = Some m"
  shows "m_backtracks m = length steps - 1"
proof -
  from assms(2) obtain acc' where
    "metricsLoop P None steps
       \<lparr>acc_pageTransitions = 0, acc_backtracks = 0, acc_searchUsed = False,
        acc_consoleErrors = 0, acc_failedRequests = 0, acc_pageVisits = []\<rparr> = Some acc'"
    and "m_backtracks m = acc_backtracks acc'"
    by (auto simp: calculateMetrics_def split: option.splits)
  with metricsLoop_backtracks_same [OF assms(1) this(1)] show ?thesis
    by simp
qed

lemma backtrackLoop_same:
  "\<forall>s \<in> set steps. stepKey P s = Some k \<Longrightarrow>
     backtrackLoop P steps bs seen =
       Some (bs @ (if k \<in> set seen then steps else tl steps))"
proof (induction steps arbitrary: bs seen)
  case Nil
  show ?case by simp
next
  case (Cons s steps)
  from Cons.prems have k: "getPageKey P (step_snapshot s) = Some k"
    and rest: "\<forall>s \<in> set steps. stepKey P s = Some k"
    by (simp_all add: stepKey_def)
  show ?case
  proof (cases "k \<in> set seen")
    case True
    with k Cons.IH [OF rest, of "bs @ [s]" seen] show ?thesis by simp
  next
    case False
    with k Cons.IH [OF rest, of bs "seen @ [k]"] show ?thesis by simp
  qed
qed

lemma backtrackFindings_six:
  assumes same: "\<forall>s \<in> set steps. stepKey P s = Some k"
    and six: "length steps = 6"
    and m: "m_backtracks m = 5"
  shows "backtrackFindings P steps m =
           Some [\<lparr>f_type = Discoverability, f_severity = High,
                  f_title = ExcessiveBacktracking, f_details = Backtracked 5,
                  f_step = step_i (hd (tl steps)),
                  f_screenshot = step_screenshot (hd (tl steps))\<rparr>]"
proof -
  from backtrackLoop_same [OF same, of "[]" "[]"]
  have "findBacktrackSteps P steps = Some (tl steps)"
    by (simp add: findBacktrackSteps_def)
  moreover from six have "length (tl steps) > 0"
    by simp
  ultimately show ?thesis
    using m by (simp add: backtrackFindings_def)
qed

text \<open>
  The other five parts give at most one finding each, and none of type discoverability with
  severity high.
\<close>

lemma other_parts:
  "length (searchFindings steps) \<le> 1"
  "length (consoleFindings steps m) \<le> 1"
  "length (networkFindings steps m) \<le> 1"
  "length (validationFindings steps) \<le> 1"
  "length (helpFindings steps) \<le> 1"
  by (auto simp: searchFindings_def consoleFindings_def networkFindings_def
      validationFindings_def helpFindings_def Let_def split: option.splits)

lemma other_parts_not_high:
  "filter (\<lambda>f. f_type f = Discoverability \<and> f_severity f = High) (searchFindings steps) = []"
  "filter (\<lambda>f. f_type f = Discoverability \<and> f_severity f = High) (consoleFindings steps m)
     = []"
  "filter (\<lambda>f. f_type f = Discoverability \<and> f_severity f = High) (networkFindings steps m)
     = []"
  "filter (\<lambda>f. f_type f = Discoverability \<and> f_severity f = High) (validationFindings steps)
     = []"
  "filter (\<lambda>f. f_type f = Discoverability \<and> f_severity f = High) (helpFindings steps) = []"
  by (auto simp: searchFindings_def consoleFindings_def networkFindings_def
      validationFindings_def helpFindings_def Let_def split: option.splits)

lemma windowFinding_six:
  "length stall = 6 \<Longrightarrow>
     windowFinding stall =
       [\<lparr>f_type = Discoverability, f_severity = High,
         f_title = NavigationDifficulty (step_pageTitle (hd stall)),
         f_details = SpentSteps 6 (step_url (hd stall)) (map formatActionShort stall),
         f_step = step_i (hd stall),
         f_screenshot = step_screenshot (hd stall)\<rparr>]"
  by (simp add: windowFinding_def)

text \<open>
  The evaluator on a trace that is one stall of six steps: of its findings, exactly two have
  type discoverability and severity high, the one of the stuck window and the one of the five
  backtracks.
\<close>

lemma evaluateFindings_six:
  assumes same: "\<forall>s \<in> set steps. stepKey P s = Some k"
    and six: "length steps = 6"
    and out: "evaluateFindings P startNow endNow steps = Some fs"
  shows "filter (\<lambda>f. f_type f = Discoverability \<and> f_severity f = High) fs =
           [\<lparr>f_type = Discoverability, f_severity = High,
             f_title = NavigationDifficulty (step_pageTitle (hd steps)),
             f_details = SpentSteps 6 (step_url (hd steps)) (map formatActionShort steps),
             f_step = step_i (hd steps),
             f_screenshot = step_screenshot (hd steps)\<rparr>,
            \<lparr>f_type = Discoverability, f_severity = High,
             f_title = ExcessiveBacktracking, f_details = Backtracked 5,
             f_step = step_i (hd (tl steps)),
             f_screenshot = step_screenshot (hd (tl steps))\<rparr>]"
proof -
  let ?w = "\<lparr>f_type = Discoverability, f_severity = High,
             f_title = NavigationDifficulty (step_pageTitle (hd steps)),
             f_details = SpentSteps 6 (step_url (hd steps)) (map formatActionShort steps),
             f_step = step_i (hd steps),
             f_screenshot = step_screenshot (hd steps)\<rparr>"
  let ?b = "\<lparr>f_type = Discoverability, f_severity = High,
             f_title = ExcessiveBacktracking, f_details = Backtracked 5,
             f_step = step_i (hd (tl steps)),
             f_screenshot = step_screenshot (hd (tl steps))\<rparr>"
  let ?high = "\<lambda>f. f_type f = Discoverability \<and> f_severity f = High"
  from out obtain m where m: "calculateMetrics P startNow endNow steps = Some m"
    and idf: "identifyFindings P steps m = Some fs"
    by (auto simp: evaluateFindings_def split: option.splits)
  from same have keys: "\<forall>s \<in> set steps. stepKey P s \<noteq> None"
    by simp
  from six have ne: "steps \<noteq> []" by auto
  from calculateMetrics_backtracks_same [OF same m] six have five: "m_backtracks m = 5"
    by simp
  have part1: "stuckWindowFindings P steps = Some [?w]"
    using stuckWindowFindings_runs [OF keys] groupRuns_same [OF ne same]
      windowFinding_six [OF six]
    by simp
  note part3 = backtrackFindings_six [OF same six five]
  let ?all = "[?w] @ searchFindings steps @ [?b] @ consoleFindings steps m @
         networkFindings steps m @ validationFindings steps @ helpFindings steps"
  from idf part1 part3 have fs: "fs = take 7 (sort_key (\<lambda>f. severityOrder (f_severity f)) ?all)"
    by (simp add: identifyFindings_def)
  have "length ?all \<le> 7"
    using other_parts(1) [of steps] other_parts(2,3) [of steps m] other_parts(4,5) [of steps]
    by simp
  with fs have "fs = sort_key (\<lambda>f. severityOrder (f_severity f)) ?all"
    by simp
  then have "filter ?high fs = sort_key (\<lambda>f. severityOrder (f_severity f)) (filter ?high ?all)"
    by (simp only: filter_sort)
  also have "filter ?high ?all = [?w, ?b]"
    using other_parts_not_high(1) [of steps] other_parts_not_high(2,3) [of steps m]
      other_parts_not_high(4,5) [of steps]
    by simp
  finally show ?thesis
    by (simp add: severityOrder_def)
qed

lemma evaluateFindings_total:
  assumes keys: "\<forall>s \<in> set steps. stepKey P s \<noteq> None"
    and urls: "\<forall>s \<in> set steps. P (step_url s) \<noteq> None"
  shows "\<exists>fs. evaluateFindings P startNow endNow steps = Some fs"
proof -
  from calculateMetrics_total [OF keys urls] obtain m where
    m: "calculateMetrics P startNow endNow steps = Some m"
    by blast
  have "\<exists>bs. backtrackLoop P steps bs0 seen = Some bs" for bs0 seen
    using keys
  proof (induction steps arbitrary: bs0 seen)
    case Nil
    show ?case by simp
  next
    case (Cons s steps)
    then obtain k where "getPageKey P (step_snapshot s) = Some k"
      by (auto simp: stepKey_def)
    with Cons show ?case by simp
  qed
  then obtain bs where "findBacktrackSteps P steps = Some bs"
    unfolding findBacktrackSteps_def by blast
  then have "\<exists>part3. backtrackFindings P steps m = Some part3"
    by (simp add: backtrackFindings_def)
  then obtain part3 where "backtrackFindings P steps m = Some part3"
    by blast
  with stuckWindowFindings_runs [OF keys] m show ?thesis
    by (simp add: evaluateFindings_def identifyFindings_def)
qed

text \<open>A stall between other pages is one run of the trace.\<close>

lemma stall_between:
  assumes ne: "stall \<noteq> []"
    and same: "\<forall>s \<in> set stall. stepKey P s = Some key"
    and before: "pre = [] \<or> stepKey P (last pre) \<noteq> Some key"
    and after: "post = [] \<or> stepKey P (hd post) \<noteq> Some key"
  shows "groupRuns (stepKey P) (pre @ stall @ post) =
           groupRuns (stepKey P) pre @ [stall] @ groupRuns (stepKey P) post"
proof -
  from ne have "hd (stall @ post) = hd stall" by simp
  with same ne have "stepKey P (hd (stall @ post)) = Some key"
    by simp
  with before have "pre = [] \<or> stall @ post = [] \<or>
      stepKey P (last pre) \<noteq> stepKey P (hd (stall @ post))"
    by auto
  from groupRuns_append [OF this] groupRuns_run_then [OF ne same after]
  show ?thesis by simp
qed

text \<open>When \<open>calculateMetrics\<close> returns, the page key of every step was there.\<close>

lemma metricsLoop_keys:
  "metricsLoop P prev steps acc = Some acc' \<Longrightarrow> \<forall>s \<in> set steps. stepKey P s \<noteq> None"
proof (induction steps arbitrary: prev acc)
  case Nil
  show ?case by simp
next
  case (Cons s steps)
  from Cons.prems obtain k where k: "getPageKey P (step_snapshot s) = Some k"
    by (cases "getPageKey P (step_snapshot s)") (auto simp: Let_def split: option.splits)
  from Cons.prems k obtain acc1 where "metricsLoop P (Some s) steps acc1 = Some acc'"
    by (auto simp: Let_def split: option.splits if_splits)
  from Cons.IH [OF this] k show ?case
    by (simp add: stepKey_def)
qed

lemma calculateMetrics_keys:
  "calculateMetrics P startNow endNow steps = Some m \<Longrightarrow>
     \<forall>s \<in> set steps. stepKey P s \<noteq> None"
  by (auto simp: calculateMetrics_def split: option.splits dest: metricsLoop_keys)

lemma calculateMetrics_runs:
  assumes "calculateMetrics P startNow endNow steps = Some m"
  shows "m_stuckEvents m = (\<Sum>r\<leftarrow>groupRuns (stepKey P) steps. length r div 3)"
  using calculateMetrics_stuck [OF assms]
    detectStuckEvents_runs [OF calculateMetrics_keys [OF assms]]
  by simp

text \<open>
  A trace with one stuck window only: the finding of the window is the only finding about a
  window that the evaluator returns.
\<close>

lemma backtrack_part:
  assumes "backtrackFindings P steps m = Some part3"
  shows "length part3 \<le> 1"
    and "filter (\<lambda>f. case f_title f of NavigationDifficulty _ \<Rightarrow> True | _ \<Rightarrow> False) part3 = []"
  using assms
  by (auto simp: backtrackFindings_def split: option.splits if_splits)

lemma other_parts_titles:
  "filter (\<lambda>f. case f_title f of NavigationDifficulty _ \<Rightarrow> True | _ \<Rightarrow> False)
     (searchFindings steps) = []"
  "filter (\<lambda>f. case f_title f of NavigationDifficulty _ \<Rightarrow> True | _ \<Rightarrow> False)
     (consoleFindings steps m) = []"
  "filter (\<lambda>f. case f_title f of NavigationDifficulty _ \<Rightarrow> True | _ \<Rightarrow> False)
     (networkFindings steps m) = []"
  "filter (\<lambda>f. case f_title f of NavigationDifficulty _ \<Rightarrow> True | _ \<Rightarrow> False)
     (validationFindings steps) = []"
  "filter (\<lambda>f. case f_title f of NavigationDifficulty _ \<Rightarrow> True | _ \<Rightarrow> False)
     (helpFindings steps) = []"
  by (auto simp: searchFindings_def consoleFindings_def networkFindings_def
      validationFindings_def helpFindings_def Let_def split: option.splits)

lemma evaluateFindings_one_window:
  assumes part1: "stuckWindowFindings P steps = Some [w]"
    and title: "f_title w = NavigationDifficulty t"
    and out: "evaluateFindings P startNow endNow steps = Some fs"
  shows "filter (\<lambda>f. case f_title f of NavigationDifficulty _ \<Rightarrow> True | _ \<Rightarrow> False) fs = [w]"
proof -
  let ?isWindow = "\<lambda>f. case f_title f of NavigationDifficulty _ \<Rightarrow> True | _ \<Rightarrow> False"
  from out obtain m where idf: "identifyFindings P steps m = Some fs"
    by (auto simp: evaluateFindings_def split: option.splits)
  from idf part1 obtain part3 where
    part3: "backtrackFindings P steps m = Some part3"
    and fs: "fs = take 7 (sort_key (\<lambda>f. severityOrder (f_severity f))
        ([w] @ searchFindings steps @ part3 @ consoleFindings steps m @
         networkFindings steps m @ validationFindings steps @ helpFindings steps))"
    by (auto simp: identifyFindings_def split: option.splits)
  let ?all = "[w] @ searchFindings steps @ part3 @ consoleFindings steps m @
         networkFindings steps m @ validationFindings steps @ helpFindings steps"
  have "length ?all \<le> 7"
    using other_parts(1) [of steps] other_parts(2,3) [of steps m] other_parts(4,5) [of steps]
      backtrack_part(1) [OF part3]
    by simp
  then have "fs = sort_key (\<lambda>f. severityOrder (f_severity f)) ?all"
    using fs by simp
  then have "filter ?isWindow fs =
      sort_key (\<lambda>f. severityOrder (f_severity f)) (filter ?isWindow ?all)"
    by (simp only: filter_sort)
  also have "filter ?isWindow ?all = [w]"
    using other_parts_titles(1) [of steps] other_parts_titles(2,3) [of steps m]
      other_parts_titles(4,5) [of steps] backtrack_part(2) [OF part3] title
    by simp
  finally show ?thesis by simp
qed

lemma no_window_findings:
  "\<forall>r \<in> set rs. length r < 3 \<Longrightarrow> concat (map windowFinding rs) = []"
  by (induction rs) (simp_all add: windowFinding_def)

text \<open>
  C6. The stuck-event metric that \<open>calculateMetrics\<close> returns is the sum, over the maximal
  runs of consecutive steps with the same page key, of the run length divided by 3: one event
  each time the counter of the run reaches 3, the counter then starting again at 0. The
  evaluator returns its metrics and its findings when the URLs of the trace parse. The stuck
  windows are the runs of three steps or more, also a run that a change of page closes, and
  each gives one finding. A stall of six steps between other pages adds 2 to the metric, and
  so does a stall of seven; the stall of six is one window with exactly one finding, of type
  discoverability and severity high, and where no other run has three steps it is the only
  finding about a window that the evaluator returns. For a trace that is that stall of six
  steps alone the evaluator returns two findings of type discoverability and severity high:
  the finding of the window, and the finding of the five backtracks that the same six steps
  make.
\<close>

theorem stuck_events_and_window:
  "(calculateMetrics P startNow endNow steps = Some m \<longrightarrow>
      m_stuckEvents m = (\<Sum>r\<leftarrow>groupRuns (stepKey P) steps. length r div 3)) \<and>
   ((\<forall>s \<in> set steps. stepKey P s \<noteq> None \<and> P (step_url s) \<noteq> None) \<longrightarrow>
      (\<exists>metrics. calculateMetrics P startNow endNow steps = Some metrics) \<and>
      (\<exists>findings. evaluateFindings P startNow endNow steps = Some findings)) \<and>
   ((\<forall>s \<in> set steps. stepKey P s \<noteq> None) \<longrightarrow>
      findStuckWindows P steps =
        Some (filter (\<lambda>w. 3 \<le> length w) (groupRuns (stepKey P) steps)) \<and>
      stuckWindowFindings P steps =
        Some (concat (map windowFinding (groupRuns (stepKey P) steps)))) \<and>
   (length stall = 6 \<longrightarrow>
      windowFinding stall =
        [\<lparr>f_type = Discoverability, f_severity = High,
          f_title = NavigationDifficulty (step_pageTitle (hd stall)),
          f_details = SpentSteps 6 (step_url (hd stall)) (map formatActionShort stall),
          f_step = step_i (hd stall),
          f_screenshot = step_screenshot (hd stall)\<rparr>]) \<and>
   (steps = pre @ stall @ post \<and>
    (\<forall>s \<in> set stall. stepKey P s = Some key) \<and>
    (pre = [] \<or> stepKey P (last pre) \<noteq> Some key) \<and>
    (post = [] \<or> stepKey P (hd post) \<noteq> Some key) \<and>
    (length stall = 6 \<or> length stall = 7) \<and>
    calculateMetrics P startNow endNow steps = Some m \<longrightarrow>
      m_stuckEvents m =
        (\<Sum>r\<leftarrow>groupRuns (stepKey P) pre. length r div 3) + 2 +
        (\<Sum>r\<leftarrow>groupRuns (stepKey P) post. length r div 3) \<and>
      stuckWindowFindings P steps =
        Some (concat (map windowFinding (groupRuns (stepKey P) pre)) @ windowFinding stall @
              concat (map windowFinding (groupRuns (stepKey P) post))) \<and>
      ((\<forall>r \<in> set (groupRuns (stepKey P) pre @ groupRuns (stepKey P) post). length r < 3) \<and>
       evaluateFindings P startNow endNow steps = Some fs \<longrightarrow>
         filter (\<lambda>f. case f_title f of NavigationDifficulty _ \<Rightarrow> True | _ \<Rightarrow> False) fs =
           windowFinding stall)) \<and>
   ((\<forall>s \<in> set stall. stepKey P s = Some key) \<and> length stall = 6 \<and>
    evaluateFindings P startNow endNow stall = Some alone \<longrightarrow>
      filter (\<lambda>f. f_type f = Discoverability \<and> f_severity f = High) alone =
        windowFinding stall @
        [\<lparr>f_type = Discoverability, f_severity = High,
          f_title = ExcessiveBacktracking, f_details = Backtracked 5,
          f_step = step_i (hd (tl stall)),
          f_screenshot = step_screenshot (hd (tl stall))\<rparr>])"
proof (intro conjI impI)
  assume "calculateMetrics P startNow endNow steps = Some m"
  then show "m_stuckEvents m = (\<Sum>r\<leftarrow>groupRuns (stepKey P) steps. length r div 3)"
    by (rule calculateMetrics_runs)
next
  assume all: "\<forall>s \<in> set steps. stepKey P s \<noteq> None \<and> P (step_url s) \<noteq> None"
  then have keys: "\<forall>s \<in> set steps. stepKey P s \<noteq> None"
    and urls: "\<forall>s \<in> set steps. P (step_url s) \<noteq> None"
    by simp_all
  show "\<exists>metrics. calculateMetrics P startNow endNow steps = Some metrics"
    using keys urls by (rule calculateMetrics_total)
  show "\<exists>findings. evaluateFindings P startNow endNow steps = Some findings"
    using keys urls by (rule evaluateFindings_total)
next
  assume keys: "\<forall>s \<in> set steps. stepKey P s \<noteq> None"
  show "findStuckWindows P steps =
      Some (filter (\<lambda>w. 3 \<le> length w) (groupRuns (stepKey P) steps))"
    using keys by (rule findStuckWindows_runs)
  show "stuckWindowFindings P steps =
      Some (concat (map windowFinding (groupRuns (stepKey P) steps)))"
    using keys by (rule stuckWindowFindings_runs)
next
  assume "length stall = 6"
  then show "windowFinding stall =
        [\<lparr>f_type = Discoverability, f_severity = High,
          f_title = NavigationDifficulty (step_pageTitle (hd stall)),
          f_details = SpentSteps 6 (step_url (hd stall)) (map formatActionShort stall),
          f_step = step_i (hd stall),
          f_screenshot = step_screenshot (hd stall)\<rparr>]"
    by (rule windowFinding_six)
next
  assume hyp: "steps = pre @ stall @ post \<and>
    (\<forall>s \<in> set stall. stepKey P s = Some key) \<and>
    (pre = [] \<or> stepKey P (last pre) \<noteq> Some key) \<and>
    (post = [] \<or> stepKey P (hd post) \<noteq> Some key) \<and>
    (length stall = 6 \<or> length stall = 7) \<and>
    calculateMetrics P startNow endNow steps = Some m"
  then have steps: "steps = pre @ stall @ post"
    and same: "\<forall>s \<in> set stall. stepKey P s = Some key"
    and before: "pre = [] \<or> stepKey P (last pre) \<noteq> Some key"
    and after: "post = [] \<or> stepKey P (hd post) \<noteq> Some key"
    and len: "length stall = 6 \<or> length stall = 7"
    and m: "calculateMetrics P startNow endNow steps = Some m"
    by blast+
  from len have ne: "stall \<noteq> []" by auto
  from len have third: "length stall div 3 = 2" by auto
  note runs = stall_between [OF ne same before after]
  note keys = calculateMetrics_keys [OF m]
  from calculateMetrics_runs [OF m] runs third
  show "m_stuckEvents m =
        (\<Sum>r\<leftarrow>groupRuns (stepKey P) pre. length r div 3) + 2 +
        (\<Sum>r\<leftarrow>groupRuns (stepKey P) post. length r div 3)"
    by (simp add: steps)
  from stuckWindowFindings_runs [OF keys] runs
  show part1: "stuckWindowFindings P steps =
        Some (concat (map windowFinding (groupRuns (stepKey P) pre)) @ windowFinding stall @
              concat (map windowFinding (groupRuns (stepKey P) post)))"
    by (simp add: steps)
  {
    assume "(\<forall>r \<in> set (groupRuns (stepKey P) pre @ groupRuns (stepKey P) post). length r < 3) \<and>
       evaluateFindings P startNow endNow steps = Some fs"
    then have short_pre: "\<forall>r \<in> set (groupRuns (stepKey P) pre). length r < 3"
      and short_post: "\<forall>r \<in> set (groupRuns (stepKey P) post). length r < 3"
      and out: "evaluateFindings P startNow endNow steps = Some fs"
      by simp_all
    from len obtain w where w: "windowFinding stall = [w]"
      and title: "f_title w = NavigationDifficulty (step_pageTitle (hd stall))"
      by (auto simp: windowFinding_def)
    from part1 no_window_findings [OF short_pre] no_window_findings [OF short_post] w
    have "stuckWindowFindings P steps = Some [w]"
      by simp
    from evaluateFindings_one_window [OF this title out] w
    show "filter (\<lambda>f. case f_title f of NavigationDifficulty _ \<Rightarrow> True | _ \<Rightarrow> False) fs =
           windowFinding stall"
      by simp
  }
next
  assume "(\<forall>s \<in> set stall. stepKey P s = Some key) \<and> length stall = 6 \<and>
    evaluateFindings P startNow endNow stall = Some alone"
  then have same: "\<forall>s \<in> set stall. stepKey P s = Some key"
    and six: "length stall = 6"
    and out: "evaluateFindings P startNow endNow stall = Some alone"
    by blast+
  from evaluateFindings_six [OF same six out] windowFinding_six [OF six]
  show "filter (\<lambda>f. f_type f = Discoverability \<and> f_severity f = High) alone =
        windowFinding stall @
        [\<lparr>f_type = Discoverability, f_severity = High,
          f_title = ExcessiveBacktracking, f_details = Backtracked 5,
          f_step = step_i (hd (tl stall)),
          f_screenshot = step_screenshot (hd (tl stall))\<rparr>]"
    by simp
qed

text \<open>
  The six steps of the run that stays on the home page, followed by a step on the account
  page.
\<close>

lemma stall_trace_steps:
  "stallTrace 6 = map stallStep [0..<6]"
  by code_simp

lemma stall_then_account:
  "list_all (\<lambda>s. stepKey exampleUrls s = Some ''/home::Welcome'') (stallTrace 6)"
  "length (stallTrace 6) = 6"
  "stepKey exampleUrls (accountStep 6) = Some ''/account::Your account''"
  "list_all (\<lambda>s. stepKey exampleUrls s \<noteq> None \<and> exampleUrls (step_url s) \<noteq> None)
     (stallTrace 6 @ [accountStep 6])"
  "(step_pageTitle (hd (stallTrace 6)), step_i (hd (stallTrace 6)),
    step_i (hd (tl (stallTrace 6)))) = (''Home'', 0, 1)"
  "case evaluateFindings exampleUrls 0 0 (stallTrace 6) of None \<Rightarrow> False | Some _ \<Rightarrow> True"
  unfolding stall_trace_steps by code_simp+

theorem stuck_events_and_window_witness:
  "map_option m_stuckEvents
     (calculateMetrics exampleUrls 0 0 (stallTrace 6 @ [accountStep 6])) = Some 2 \<and>
   findStuckWindows exampleUrls (stallTrace 6 @ [accountStep 6]) = Some [stallTrace 6] \<and>
   map_option (map (\<lambda>f. (f_type f, f_severity f, f_title f, f_step f)))
     (stuckWindowFindings exampleUrls (stallTrace 6 @ [accountStep 6])) =
     Some [(Discoverability, High, NavigationDifficulty ''Home'', 0)] \<and>
   map_option
     (\<lambda>fs. map (\<lambda>f. (f_type f, f_severity f, f_title f, f_step f))
        (filter (\<lambda>f. case f_title f of NavigationDifficulty _ \<Rightarrow> True | _ \<Rightarrow> False) fs))
     (evaluateFindings exampleUrls 0 0 (stallTrace 6 @ [accountStep 6])) =
     Some [(Discoverability, High, NavigationDifficulty ''Home'', 0)] \<and>
   map_option
     (\<lambda>fs. map (\<lambda>f. (f_type f, f_severity f, f_title f, f_step f))
        (filter (\<lambda>f. f_type f = Discoverability \<and> f_severity f = High) fs))
     (evaluateFindings exampleUrls 0 0 (stallTrace 6)) =
     Some [(Discoverability, High, NavigationDifficulty ''Home'', 0),
           (Discoverability, High, ExcessiveBacktracking, 1)]"
proof -
  let ?T = "stallTrace 6"
  let ?A = "accountStep 6"
  let ?f = "stepKey exampleUrls"
  from stall_then_account(1)
  have same: "\<forall>s \<in> set ?T. ?f s = Some ''/home::Welcome''"
    by (simp only: list_all_iff)
  note six = stall_then_account(2)
  from six have ne: "?T \<noteq> []" by auto
  from stall_then_account(3)
  have after: "[?A] = [] \<or> ?f (hd [?A]) \<noteq> Some ''/home::Welcome''"
    by simp
  from stall_then_account(4)
  have all: "\<forall>s \<in> set (?T @ [?A]). ?f s \<noteq> None \<and> exampleUrls (step_url s) \<noteq> None"
    by (simp only: list_all_iff)
  then have keys: "\<forall>s \<in> set (?T @ [?A]). ?f s \<noteq> None"
    by blast
  from stall_then_account(5) have first: "step_pageTitle (hd ?T) = ''Home''"
    "step_i (hd ?T) = 0" "step_i (hd (tl ?T)) = 1"
    by simp_all
  from stall_then_account(6) obtain alone where
    alone: "evaluateFindings exampleUrls 0 0 ?T = Some alone"
    by (cases "evaluateFindings exampleUrls 0 0 ?T") simp_all
  have runs: "groupRuns ?f (?T @ [?A]) = [?T, [?A]]"
    using groupRuns_run_then [OF ne same after] by simp
  note inst = stuck_events_and_window [where P = exampleUrls and startNow = 0 and endNow = 0
      and steps = "?T @ [?A]" and stall = ?T and pre = "[]" and post = "[?A]"
      and key = "''/home::Welcome''" and alone = alone]
  note total = inst [THEN conjunct2, THEN conjunct1, THEN mp, OF all]
  then obtain m fs where m: "calculateMetrics exampleUrls 0 0 (?T @ [?A]) = Some m"
    and fs: "evaluateFindings exampleUrls 0 0 (?T @ [?A]) = Some fs"
    by blast
  note metric = inst [where m = m, THEN conjunct1, THEN mp, OF m]
  note windows = inst [THEN conjunct2, THEN conjunct2, THEN conjunct1, THEN mp, OF keys]
  note window = inst [THEN conjunct2, THEN conjunct2, THEN conjunct2, THEN conjunct1,
      THEN mp, OF six]
  have between: "?T @ [?A] = [] @ ?T @ [?A] \<and>
      (\<forall>s \<in> set ?T. ?f s = Some ''/home::Welcome'') \<and>
      ([] = [] \<or> ?f (last []) \<noteq> Some ''/home::Welcome'') \<and>
      ([?A] = [] \<or> ?f (hd [?A]) \<noteq> Some ''/home::Welcome'') \<and>
      (length ?T = 6 \<or> length ?T = 7) \<and>
      calculateMetrics exampleUrls 0 0 (?T @ [?A]) = Some m"
    using same after six m by (intro conjI) simp_all
  note stall = inst [where m = m and fs = fs, THEN conjunct2, THEN conjunct2, THEN conjunct2,
      THEN conjunct2, THEN conjunct1, THEN mp, OF between]
  have short: "(\<forall>r \<in> set (groupRuns ?f [] @ groupRuns ?f [?A]). length r < 3) \<and>
      evaluateFindings exampleUrls 0 0 (?T @ [?A]) = Some fs"
    using fs by simp
  note only = stall [THEN conjunct2, THEN conjunct2, THEN mp, OF short]
  have whole: "(\<forall>s \<in> set ?T. ?f s = Some ''/home::Welcome'') \<and> length ?T = 6 \<and>
      evaluateFindings exampleUrls 0 0 ?T = Some alone"
    using same six alone by (intro conjI)
  note two = inst [THEN conjunct2, THEN conjunct2, THEN conjunct2, THEN conjunct2,
      THEN conjunct2, THEN mp, OF whole]
  from metric runs six have "m_stuckEvents m = 2"
    by simp
  with m have g1: "map_option m_stuckEvents
      (calculateMetrics exampleUrls 0 0 (?T @ [?A])) = Some 2"
    by simp
  from windows [THEN conjunct1] runs six
  have g2: "findStuckWindows exampleUrls (?T @ [?A]) = Some [?T]"
    by simp
  from stall [THEN conjunct2, THEN conjunct1] window first
  have g3: "map_option (map (\<lambda>f. (f_type f, f_severity f, f_title f, f_step f)))
      (stuckWindowFindings exampleUrls (?T @ [?A])) =
      Some [(Discoverability, High, NavigationDifficulty ''Home'', 0)]"
    by (simp add: windowFinding_def)
  from only window first fs
  have g4: "map_option
      (\<lambda>fs. map (\<lambda>f. (f_type f, f_severity f, f_title f, f_step f))
         (filter (\<lambda>f. case f_title f of NavigationDifficulty _ \<Rightarrow> True | _ \<Rightarrow> False) fs))
      (evaluateFindings exampleUrls 0 0 (?T @ [?A])) =
      Some [(Discoverability, High, NavigationDifficulty ''Home'', 0)]"
    by simp
  from two window first alone
  have g5: "map_option
      (\<lambda>fs. map (\<lambda>f. (f_type f, f_severity f, f_title f, f_step f))
         (filter (\<lambda>f. f_type f = Discoverability \<and> f_severity f = High) fs))
      (evaluateFindings exampleUrls 0 0 ?T) =
      Some [(Discoverability, High, NavigationDifficulty ''Home'', 0),
            (Discoverability, High, ExcessiveBacktracking, 1)]"
    by simp
  from g1 g2 g3 g4 g5 show ?thesis
    by (intro conjI)
qed

text \<open>
  C7. The trace of one click that fails in the driver: the progress of its only step is
  \<open>none\<close>, no step has progress \<open>some\<close> together with validation or error text, and the
  evaluator returns the validation finding, because the filter groups its condition as
  \<open>(progress = some and notes mention validation) or notes mention error\<close>.
\<close>

theorem validation_finding_failing_input:
  "map (\<lambda>s. res_progress (step_result s)) (failingTrace 1) = [ProgNone] \<and>
   map (\<lambda>s. res_notes (step_result s)) (failingTrace 1) =
     [''Action failed: locator.click: Error: Element is not attached to the DOM''] \<and>
   \<not> list_ex specIsValidationStep (failingTrace 1) \<and>
   map_option (map (\<lambda>f. (f_type f, f_severity f, f_title f, f_details f, f_step f)))
     (evaluateFindings exampleUrls 0 0 (failingTrace 1)) =
     Some [(Validation, Low, FormValidationTriggered, ValidationAt 1, 0)]"
  by code_simp

end
